theory Spec2Isabelle
  imports Complex_Main "HOL-Library.AList"
begin

section \<open>Huffman file compressor: a shallow embedding of huffman.py\<close>

text \<open>
  The embedding follows \<^verbatim>\<open>src/huffman.py\<close> function by function and keeps its names.
  Bytes and symbols are natural numbers (a Python \<^verbatim>\<open>bytes\<close> object holds integers in
  \<open>0..255\<close>; where the source builds one with \<^verbatim>\<open>bytes(...)\<close> the range check is a
  branch of the model). Bit strings are Python \<^verbatim>\<open>str\<close> values, here \<open>string\<close>.
  Dictionaries are association lists in insertion order (\<open>AList.update\<close> replaces the
  value of a key in place and appends a new key, as a Python dict does). Every exception
  the source can raise is a value \<open>Inl e\<close> of the result.
\<close>

unbundle bit_operations_syntax

datatype py_error =
    IndexError
  | AttributeError
  | KeyError
  | ValueError
  | TypeError
  | OverflowError
  | ZeroDivisionError
  | RecursionError
  | UnboundLocalError

subsection \<open>The node classes\<close>

text \<open>
  Modelled from the spec: the module \<^verbatim>\<open>nodes.py\<close> (classes \<^verbatim>\<open>HuffmanNode\<close> and
  \<^verbatim>\<open>ReadNode\<close>) is imported by huffman.py and is not among the sources. The spec's data
  model (section 3) gives a tree node a symbol (absent on internal nodes), a left and a
  right child (each possibly absent) and a number; huffman.py constructs nodes as
  \<^verbatim>\<open>HuffmanNode(symbol)\<close> and \<^verbatim>\<open>HuffmanNode(None, left, right)\<close> and reads the attributes
  \<^verbatim>\<open>symbol\<close>, \<^verbatim>\<open>left\<close>, \<^verbatim>\<open>right\<close>, \<^verbatim>\<open>number\<close>. An absent attribute is Python's
  \<^verbatim>\<open>None\<close>, here \<open>None\<close>.
\<close>

datatype hnode =
  HuffmanNode (symbol: "nat option") (left: "hnode option") (right: "hnode option")
    (number: "nat option")

text \<open>
  Modelled from the spec: \<^verbatim>\<open>is_leaf\<close> of the absent module: a node is a leaf when it has
  no child (spec section 3: leaves carry a symbol, internal nodes have one or two
  children).
\<close>

definition is_leaf :: "hnode \<Rightarrow> bool" where
  "is_leaf t = (left t = None \<and> right t = None)"

text \<open>\<^verbatim>\<open>HuffmanNode(symbol)\<close>: a fresh leaf, not numbered.\<close>

definition leaf :: "nat \<Rightarrow> hnode" where
  "leaf s = HuffmanNode (Some s) None None None"

text \<open>
  Modelled from the spec: equality of nodes (\<^verbatim>\<open>==\<close>) is structural, "same shape, same
  symbols at same leaf positions" (spec section 8); the number, which is "used purely for
  the wire format", takes no part in it.
\<close>

fun node_eq :: "hnode \<Rightarrow> hnode \<Rightarrow> bool" where
  "node_eq (HuffmanNode s1 l1 r1 n1) (HuffmanNode s2 l2 r2 n2) =
     (s1 = s2 \<and>
      (case (l1, l2) of
         (None, None) \<Rightarrow> True
       | (Some a, Some b) \<Rightarrow> node_eq a b
       | _ \<Rightarrow> False) \<and>
      (case (r1, r2) of
         (None, None) \<Rightarrow> True
       | (Some a, Some b) \<Rightarrow> node_eq a b
       | _ \<Rightarrow> False))"

text \<open>
  Modelled from the spec: a \<^verbatim>\<open>ReadNode\<close> is the 4-field record of section 3 (left flag,
  left data, right flag, right data), each field one byte of the container.
\<close>

record ReadNode =
  l_type :: nat
  l_data :: nat
  r_type :: nat
  r_data :: nat

subsection \<open>Helper functions for manipulating bytes\<close>

definition get_bit :: "nat \<Rightarrow> nat \<Rightarrow> nat" where
  "get_bit byte bit_num = drop_bit bit_num (byte AND push_bit bit_num 1)"

text \<open>Python's \<^verbatim>\<open>str\<close> of a non-negative integer: its decimal digits.\<close>

definition digit_char :: "nat \<Rightarrow> char" where
  "digit_char d = ''0123456789'' ! d"

fun py_str :: "nat \<Rightarrow> string" where
  "py_str n = (if n < 10 then [digit_char n] else py_str (n div 10) @ [digit_char (n mod 10)])"

declare py_str.simps [simp del]

definition byte_to_bits :: "nat \<Rightarrow> string" where
  "byte_to_bits byte = concat (map (\<lambda>bit_num. py_str (get_bit byte bit_num)) (rev [0..<8]))"

text \<open>
  Python's \<^verbatim>\<open>int\<close> of a one-character string: the digit's value, \<^verbatim>\<open>ValueError\<close> for
  any other character.
\<close>

definition py_int :: "char \<Rightarrow> py_error + nat" where
  "py_int c =
     (if (48::nat) \<le> of_char c \<and> of_char c \<le> (57::nat) then Inr (of_char c - 48)
      else Inl ValueError)"

text \<open>
  \<^verbatim>\<open>bits_to_byte\<close> sums \<^verbatim>\<open>int(bits[pos]) << (7 - pos)\<close> over the positions of
  \<^verbatim>\<open>bits\<close>, left to right. A shift by a negative count (a position past 7) raises
  \<^verbatim>\<open>ValueError\<close>.
\<close>

fun bits_to_byte_from :: "nat \<Rightarrow> string \<Rightarrow> py_error + nat" where
  "bits_to_byte_from pos [] = Inr 0"
| "bits_to_byte_from pos (c # cs) =
     (case py_int c of
        Inl e \<Rightarrow> Inl e
      | Inr d \<Rightarrow>
          if 7 < pos then Inl ValueError
          else (case bits_to_byte_from (Suc pos) cs of
                  Inl e \<Rightarrow> Inl e
                | Inr s \<Rightarrow> Inr (push_bit (7 - pos) d + s)))"

definition bits_to_byte :: "string \<Rightarrow> py_error + nat" where
  "bits_to_byte bits = bits_to_byte_from 0 bits"

text \<open>The character that \<^verbatim>\<open>str\<close> gives for one bit (used to state properties).\<close>

definition bit_char :: "bool \<Rightarrow> char" where
  "bit_char x = (if x then CHR ''1'' else CHR ''0'')"

text \<open>
  \<^verbatim>\<open>bytes(lst)\<close>: every element must be an integer in \<open>0..255\<close>. The elements are
  checked in order: \<^verbatim>\<open>None\<close> raises \<^verbatim>\<open>TypeError\<close>, an integer out of range
  \<^verbatim>\<open>ValueError\<close>.
\<close>

fun py_bytes :: "nat option list \<Rightarrow> py_error + nat list" where
  "py_bytes [] = Inr []"
| "py_bytes (None # xs) = Inl TypeError"
| "py_bytes (Some b # xs) =
     (if 256 \<le> b then Inl ValueError
      else (case py_bytes xs of Inl e \<Rightarrow> Inl e | Inr bs \<Rightarrow> Inr (b # bs)))"

text \<open>\<^verbatim>\<open>s[start:counter]\<close> for indices that are not negative.\<close>

definition py_slice :: "'a list \<Rightarrow> nat \<Rightarrow> nat \<Rightarrow> 'a list" where
  "py_slice s start counter = take (counter - start) (drop start s)"

text \<open>
  \<^verbatim>\<open>lst[i]\<close> for a Python integer \<open>i\<close>: a negative index counts from the end, an
  index out of range raises \<^verbatim>\<open>IndexError\<close>.
\<close>

definition py_index :: "'a list \<Rightarrow> int \<Rightarrow> py_error + 'a" where
  "py_index lst i =
     (let n = int (length lst); j = (if i < 0 then n + i else i)
      in if 0 \<le> j \<and> j < n then Inr (lst ! nat j) else Inl IndexError)"

subsection \<open>Functions for compression\<close>

text \<open>\<^verbatim>\<open>freq[byte] = freq.get(byte, 0) + 1\<close> for each byte, in order.\<close>

definition make_freq_dict :: "nat list \<Rightarrow> (nat \<times> nat) list" where
  "make_freq_dict bs =
     fold (\<lambda>byte freq.
            AList.update byte ((case map_of freq byte of None \<Rightarrow> 0 | Some c \<Rightarrow> c) + 1) freq)
       bs []"

text \<open>
  The working list of \<^verbatim>\<open>huffman_tree\<close> pairs a weight with a key that is either a
  symbol (an \<^verbatim>\<open>int\<close>) or a \<^verbatim>\<open>HuffmanNode\<close>. \<open>key_eq\<close> is Python's \<^verbatim>\<open>==\<close> on keys:
  an integer never equals a node.
\<close>

datatype key = SymbolKey nat | NodeKey hnode

fun key_eq :: "key \<Rightarrow> key \<Rightarrow> bool" where
  "key_eq (SymbolKey a) (SymbolKey b) = (a = b)"
| "key_eq (NodeKey a) (NodeKey b) = node_eq a b"
| "key_eq _ _ = False"

text \<open>
  \<^verbatim>\<open>lst.remove(x)\<close>: the first element equal to \<open>x\<close> is removed; \<^verbatim>\<open>ValueError\<close>
  when there is none.
\<close>

fun py_remove :: "key \<times> nat \<Rightarrow> (key \<times> nat) list \<Rightarrow> py_error + (key \<times> nat) list" where
  "py_remove x [] = Inl ValueError"
| "py_remove x (y # ys) =
     (if key_eq (fst y) (fst x) \<and> snd y = snd x then Inr ys
      else (case py_remove x ys of Inl e \<Rightarrow> Inl e | Inr zs \<Rightarrow> Inr (y # zs)))"

text \<open>
  \<^verbatim>\<open>take_min\<close> returns the first pair of lowest value and the list without it;
  \<^verbatim>\<open>lst[0]\<close> raises \<^verbatim>\<open>IndexError\<close> on the empty list.
\<close>

definition take_min :: "(key \<times> nat) list \<Rightarrow> py_error + ((key \<times> nat) \<times> (key \<times> nat) list)" where
  "take_min lst =
     (case lst of
        [] \<Rightarrow> Inl IndexError
      | p # ps \<Rightarrow>
          (case py_remove
                  (fold (\<lambda>kv smallest. if snd kv < snd smallest then kv else smallest) lst p)
                  lst of
             Inl e \<Rightarrow> Inl e
           | Inr rest \<Rightarrow>
               Inr (fold (\<lambda>kv smallest. if snd kv < snd smallest then kv else smallest) lst p,
                    rest)))"

text \<open>\<^verbatim>\<open>x[0] if isinstance(x[0], HuffmanNode) else HuffmanNode(x[0])\<close>.\<close>

fun as_node :: "key \<Rightarrow> hnode" where
  "as_node (NodeKey t) = t"
| "as_node (SymbolKey s) = leaf s"

text \<open>
  The loop \<^verbatim>\<open>while len(freq) != 1\<close> of \<^verbatim>\<open>huffman_tree\<close>. The local variable
  \<^verbatim>\<open>root\<close> (here \<open>cur\<close>) is unbound until the body has run once.
\<close>

function huffman_while :: "(key \<times> nat) list \<Rightarrow> hnode option \<Rightarrow> py_error + hnode" where
  "huffman_while freq cur =
     (if length freq \<noteq> 1 then
        (case take_min freq of
           Inl e \<Rightarrow> Inl e
         | Inr (x, freq1) \<Rightarrow>
             (case take_min freq1 of
                Inl e \<Rightarrow> Inl e
              | Inr (y, freq2) \<Rightarrow>
                  huffman_while
                    (freq2 @
                      [(NodeKey (HuffmanNode None (Some (as_node (fst x))) (Some (as_node (fst y))) None),
                        snd x + snd y)])
                    (Some (HuffmanNode None (Some (as_node (fst x))) (Some (as_node (fst y))) None))))
      else (case cur of None \<Rightarrow> Inl UnboundLocalError | Some r \<Rightarrow> Inr r))"
  by pat_completeness auto
termination
proof -
  have removed: "length lst = Suc (length rest)"
    if "py_remove x lst = Inr rest" for x lst rest
    using that by (induction lst arbitrary: rest) (auto split: if_splits sum.splits)
  have taken: "length lst = Suc (length rest)"
    if "take_min lst = Inr (m, rest)" for lst m rest
  proof -
    from that obtain x where "py_remove x lst = Inr rest"
      unfolding take_min_def
      by (auto split: list.splits sum.splits simp del: py_remove.simps)
    then show ?thesis by (rule removed)
  qed
  show ?thesis
    by (relation "measure (\<lambda>(freq, cur). length freq)") (auto dest!: taken)
qed

declare huffman_while.simps [simp del]

definition huffman_tree :: "(nat \<times> nat) list \<Rightarrow> py_error + hnode" where
  "huffman_tree freq_dict =
     (if length freq_dict = 1 then
        Inr (HuffmanNode None (Some (leaf (fst (freq_dict ! 0)))) None None)
      else huffman_while (map (\<lambda>(s, c). (SymbolKey s, c)) freq_dict) None)"

text \<open>
  A code table maps a symbol (the \<^verbatim>\<open>symbol\<close> attribute of a leaf, which may be
  \<^verbatim>\<open>None\<close>) to its bit string.
\<close>

type_synonym codes = "(nat option \<times> string) list"

text \<open>\<^verbatim>\<open>codes.update(d)\<close>: the entries of \<open>d\<close> are stored in order.\<close>

definition dict_update :: "('k \<times> 'v) list \<Rightarrow> ('k \<times> 'v) list \<Rightarrow> ('k \<times> 'v) list" where
  "dict_update d codes = fold (\<lambda>(k, v). AList.update k v) d codes"

text \<open>\<^verbatim>\<open>for key in d.keys(): d[key] = b + d[key]\<close>, for a one-character \<open>b\<close>.\<close>

definition prefix_codes :: "char \<Rightarrow> codes \<Rightarrow> codes" where
  "prefix_codes b d = map (\<lambda>(k, v). (k, b # v)) d"

text \<open>
  \<^verbatim>\<open>get_codes\<close>. The test \<^verbatim>\<open>tree == None\<close> holds for \<^verbatim>\<open>None\<close> only. Calling
  \<^verbatim>\<open>is_leaf\<close> on an absent child raises \<^verbatim>\<open>AttributeError\<close>.
\<close>

function get_codes :: "hnode option \<Rightarrow> py_error + codes" where
  "get_codes None = Inr []"
| "get_codes (Some tree) =
     (case left tree of
        None \<Rightarrow> Inl AttributeError
      | Some l \<Rightarrow>
          (case (if is_leaf l then Inr (AList.update (symbol l) ''0'' [])
                 else (case get_codes (left tree) of
                         Inl e \<Rightarrow> Inl e
                       | Inr d \<Rightarrow> Inr (dict_update (prefix_codes CHR ''0'' d) []))) of
             Inl e \<Rightarrow> Inl e
           | Inr codes \<Rightarrow>
               (case right tree of
                  None \<Rightarrow> Inl AttributeError
                | Some r \<Rightarrow>
                    if is_leaf r then Inr (AList.update (symbol r) ''1'' codes)
                    else (case get_codes (right tree) of
                            Inl e \<Rightarrow> Inl e
                          | Inr d \<Rightarrow> Inr (dict_update (prefix_codes CHR ''1'' d) codes)))))"
  by pat_completeness auto
termination
proof -
  have smaller_left: "size l < size t" if "left t = Some l" for t l
    using that by (cases t) simp
  have smaller_right: "size r < size t" if "right t = Some r" for t r
    using that by (cases t) simp
  show ?thesis
    by (relation "measure (\<lambda>t. case t of None \<Rightarrow> 0 | Some n \<Rightarrow> size n)") (auto dest: smaller_left smaller_right)
qed

declare get_codes.simps [simp del]

text \<open>
  \<^verbatim>\<open>numbering\<close> assigns \<^verbatim>\<open>tree.number\<close> in place and returns the next free number;
  the model returns the numbered tree with it. A call on an absent child fails at
  \<^verbatim>\<open>tree.is_leaf()\<close>.
\<close>

function numbering :: "hnode \<Rightarrow> nat \<Rightarrow> py_error + (hnode \<times> nat)" where
  "numbering tree n =
     (if \<not> is_leaf tree then
        (case left tree of
           None \<Rightarrow> Inl AttributeError
         | Some l \<Rightarrow>
             (case numbering l n of
                Inl e \<Rightarrow> Inl e
              | Inr (l', n1) \<Rightarrow>
                  (case right tree of
                     None \<Rightarrow> Inl AttributeError
                   | Some r \<Rightarrow>
                       (case numbering r n1 of
                          Inl e \<Rightarrow> Inl e
                        | Inr (r', n2) \<Rightarrow>
                            Inr (HuffmanNode (symbol tree) (Some l') (Some r') (Some n2),
                                 n2 + 1)))))
      else Inr (tree, n))"
  by pat_completeness auto
termination
proof -
  have smaller_left: "size l < size t" if "left t = Some l" for t l
    using that by (cases t) simp
  have smaller_right: "size r < size t" if "right t = Some r" for t r
    using that by (cases t) simp
  show ?thesis
    by (relation "measure (\<lambda>(t, n). size t)") (auto dest: smaller_left smaller_right)
qed

declare numbering.simps [simp del]

definition number_nodes :: "hnode \<Rightarrow> py_error + hnode" where
  "number_nodes tree = (case numbering tree 0 of Inl e \<Rightarrow> Inl e | Inr (t, n) \<Rightarrow> Inr t)"

text \<open>
  \<^verbatim>\<open>avg_length\<close>: the loop over the keys of the code table, then the division. The
  quotient is a Python float; the model returns the exact quotient, which only the
  console output of \<^verbatim>\<open>compress\<close> uses.
\<close>

fun avg_length_loop ::
  "nat option list \<Rightarrow> codes \<Rightarrow> (nat \<times> nat) list \<Rightarrow> nat \<Rightarrow> nat \<Rightarrow> py_error + (nat \<times> nat)" where
  "avg_length_loop [] codes freq_dict tot avg = Inr (tot, avg)"
| "avg_length_loop (k # ks) codes freq_dict tot avg =
     (case (case k of None \<Rightarrow> None | Some b \<Rightarrow> map_of freq_dict b) of
        None \<Rightarrow> Inl KeyError
      | Some f \<Rightarrow>
          (case map_of codes k of
             None \<Rightarrow> Inl KeyError
           | Some c \<Rightarrow> avg_length_loop ks codes freq_dict (tot + f) (avg + length c * f)))"

definition avg_length :: "hnode \<Rightarrow> (nat \<times> nat) list \<Rightarrow> py_error + real" where
  "avg_length tree freq_dict =
     (case get_codes (Some tree) of
        Inl e \<Rightarrow> Inl e
      | Inr codes \<Rightarrow>
          (case avg_length_loop (map fst codes) codes freq_dict 0 0 of
             Inl e \<Rightarrow> Inl e
           | Inr (tot, avg) \<Rightarrow>
               if tot = 0 then Inl ZeroDivisionError else Inr (real avg / real tot)))"

text \<open>
  The loop of \<^verbatim>\<open>generate_compressed\<close> over the input, with its two local variables:
  the list \<open>y\<close> of bytes emitted so far and the bit buffer \<open>byte\<close>.
\<close>

fun generate_compressed_loop ::
  "codes \<Rightarrow> nat list \<Rightarrow> nat list \<Rightarrow> string \<Rightarrow> py_error + (nat list \<times> string)" where
  "generate_compressed_loop codes [] y byte = Inr (y, byte)"
| "generate_compressed_loop codes (i # rest) y byte =
     (case map_of codes (Some i) of
        None \<Rightarrow> Inl KeyError
      | Some c \<Rightarrow>
          if length byte + length c > 8 then
            (case bits_to_byte (take 8 (byte @ c)) of
               Inl e \<Rightarrow> Inl e
             | Inr b \<Rightarrow> generate_compressed_loop codes rest (y @ [b]) (drop 8 (byte @ c)))
          else generate_compressed_loop codes rest y (byte @ c))"

definition generate_compressed :: "nat list \<Rightarrow> codes \<Rightarrow> py_error + nat list" where
  "generate_compressed bs codes =
     (case generate_compressed_loop codes bs [] [] of
        Inl e \<Rightarrow> Inl e
      | Inr (y, byte) \<Rightarrow>
          (case bits_to_byte byte of
             Inl e \<Rightarrow> Inl e
           | Inr b \<Rightarrow> py_bytes (map Some (y @ [b]))))"

text \<open>
  \<^verbatim>\<open>tree_to_bytes\<close>: the records of the internal subtrees, left then right, then the
  record of the node itself; the list is turned into \<^verbatim>\<open>bytes\<close> at the end of every
  call.
\<close>

function tree_to_bytes :: "hnode \<Rightarrow> py_error + nat list" where
  "tree_to_bytes tree =
     (case left tree of
        None \<Rightarrow> Inl AttributeError
      | Some l \<Rightarrow>
          (case (if \<not> is_leaf l then tree_to_bytes l else Inr []) of
             Inl e \<Rightarrow> Inl e
           | Inr lb \<Rightarrow>
               (case right tree of
                  None \<Rightarrow> Inl AttributeError
                | Some r \<Rightarrow>
                    (case (if \<not> is_leaf r then tree_to_bytes r else Inr []) of
                       Inl e \<Rightarrow> Inl e
                     | Inr rb \<Rightarrow>
                         py_bytes
                           (map Some lb @ map Some rb @
                            (if is_leaf l then [Some 0, symbol l] else [Some 1, number l]) @
                            (if is_leaf r then [Some 0, symbol r] else [Some 1, number r]))))))"
  by pat_completeness auto
termination
proof -
  have smaller_left: "size l < size t" if "left t = Some l" for t l
    using that by (cases t) simp
  have smaller_right: "size r < size t" if "right t = Some r" for t r
    using that by (cases t) simp
  show ?thesis
    by (relation "measure size") (auto dest: smaller_left smaller_right)
qed

declare tree_to_bytes.simps [simp del]

definition num_nodes_to_bytes :: "hnode \<Rightarrow> py_error + nat list" where
  "num_nodes_to_bytes tree =
     (case number tree of None \<Rightarrow> Inl TypeError | Some n \<Rightarrow> py_bytes [Some (n + 1)])"

text \<open>\<^verbatim>\<open>size.to_bytes(4, "little")\<close> raises \<^verbatim>\<open>OverflowError\<close> from \<open>2^32\<close> on.\<close>

definition size_to_bytes :: "nat \<Rightarrow> py_error + nat list" where
  "size_to_bytes n =
     (if n < 2 ^ 32 then
        Inr [n mod 256, n div 256 mod 256, n div 65536 mod 256, n div 16777216 mod 256]
      else Inl OverflowError)"

text \<open>
  \<^verbatim>\<open>compress\<close>, from the bytes read from the input file to the bytes written to the
  output file.
\<close>

definition compress :: "nat list \<Rightarrow> py_error + nat list" where
  "compress bs =
     (case huffman_tree (make_freq_dict bs) of
        Inl e \<Rightarrow> Inl e
      | Inr tree0 \<Rightarrow>
          (case get_codes (Some tree0) of
             Inl e \<Rightarrow> Inl e
           | Inr codes \<Rightarrow>
               (case number_nodes tree0 of
                  Inl e \<Rightarrow> Inl e
                | Inr tree \<Rightarrow>
                    (case avg_length tree (make_freq_dict bs) of
                       Inl e \<Rightarrow> Inl e
                     | Inr bits_per_symbol \<Rightarrow>
                         (case num_nodes_to_bytes tree of
                            Inl e \<Rightarrow> Inl e
                          | Inr count \<Rightarrow>
                              (case tree_to_bytes tree of
                                 Inl e \<Rightarrow> Inl e
                               | Inr records \<Rightarrow>
                                   (case size_to_bytes (length bs) of
                                      Inl e \<Rightarrow> Inl e
                                    | Inr sz \<Rightarrow>
                                        (case generate_compressed bs codes of
                                           Inl e \<Rightarrow> Inl e
                                         | Inr packed \<Rightarrow>
                                             Inr (count @ records @ sz @ packed)))))))))"

subsection \<open>Functions for decompression\<close>

text \<open>
  \<^verbatim>\<open>generate_tree_general\<close> follows the references of the records and does not
  terminate on a table with a cycle; Python then raises \<^verbatim>\<open>RecursionError\<close> when the
  interpreter's recursion limit is reached. The first argument is the number of nested
  calls the interpreter still allows. A flag is tested for truth (\<^verbatim>\<open>if x.l_type\<close>):
  any value but 0 marks a reference. The memory that the tree takes is not bounded in
  the model: a record that is referred to twice is built twice, so \<open>k\<close> records that
  each refer twice to the one before make the code build \<open>2 ^ k\<close> nodes, and the
  interpreter may run out of memory where the model returns the tree. What is proved
  below of the results of this function therefore holds of the code whenever the code
  returns.
\<close>

fun generate_tree_general :: "nat \<Rightarrow> ReadNode list \<Rightarrow> int \<Rightarrow> py_error + hnode" where
  "generate_tree_general 0 node_lst root_index = Inl RecursionError"
| "generate_tree_general (Suc depth) node_lst root_index =
     (case py_index node_lst root_index of
        Inl e \<Rightarrow> Inl e
      | Inr x \<Rightarrow>
          (case (if l_type x \<noteq> 0 then generate_tree_general depth node_lst (int (l_data x))
                 else Inr (leaf (l_data x))) of
             Inl e \<Rightarrow> Inl e
           | Inr l \<Rightarrow>
               (case (if r_type x \<noteq> 0 then generate_tree_general depth node_lst (int (r_data x))
                      else Inr (leaf (r_data x))) of
                  Inl e \<Rightarrow> Inl e
                | Inr r \<Rightarrow> Inr (HuffmanNode None (Some l) (Some r) None))))"

text \<open>\<^verbatim>\<open>q.pop(0)\<close>: the first element and the rest; \<^verbatim>\<open>IndexError\<close> on an empty list.\<close>

definition py_pop0 :: "'a list \<Rightarrow> py_error + ('a \<times> 'a list)" where
  "py_pop0 q = (case q of [] \<Rightarrow> Inl IndexError | t # ts \<Rightarrow> Inr (t, ts))"

text \<open>
  The loop of \<^verbatim>\<open>generate_tree_postorder\<close> over the records, with its queue \<open>q\<close>. Here
  a flag marks a reference only when it equals 1 (\<^verbatim>\<open>x.l_type == 1\<close>).
\<close>

fun generate_tree_postorder_loop :: "ReadNode list \<Rightarrow> hnode list \<Rightarrow> py_error + hnode list" where
  "generate_tree_postorder_loop [] q = Inr q"
| "generate_tree_postorder_loop (x # xs) q =
     (case (if l_type x = 1 then py_pop0 q else Inr (leaf (l_data x), q)) of
        Inl e \<Rightarrow> Inl e
      | Inr (l, q1) \<Rightarrow>
          (case (if r_type x = 1 then py_pop0 q1 else Inr (leaf (r_data x), q1)) of
             Inl e \<Rightarrow> Inl e
           | Inr (r, q2) \<Rightarrow>
               generate_tree_postorder_loop xs
                 (q2 @ [HuffmanNode None (Some l) (Some r) None])))"

definition generate_tree_postorder :: "ReadNode list \<Rightarrow> int \<Rightarrow> py_error + hnode" where
  "generate_tree_postorder node_lst root_index =
     (case generate_tree_postorder_loop node_lst [] of
        Inl e \<Rightarrow> Inl e
      | Inr q \<Rightarrow> (case q of [] \<Rightarrow> Inl IndexError | t # ts \<Rightarrow> Inr t))"

text \<open>
  The innermost loop of \<^verbatim>\<open>generate_uncompressed\<close>:
  \<^verbatim>\<open>while not short and code[start:counter] not in reverse\<close>.
\<close>

function scan_code ::
  "(string \<times> nat option) list \<Rightarrow> string \<Rightarrow> nat \<Rightarrow> nat \<Rightarrow> bool \<Rightarrow> nat \<times> bool" where
  "scan_code reverse code start counter short =
     (if \<not> short \<and> map_of reverse (py_slice code start counter) = None then
        scan_code reverse code start (counter + 1)
          (if counter + 1 > length code then True else short)
      else (counter, short))"
  by pat_completeness auto
termination
  by (relation "measure (\<lambda>(reverse, code, start, counter, short).
        if short then 0 else Suc (Suc (length code) - counter))")
    auto

declare scan_code.simps [simp del]

text \<open>
  The middle loop, \<^verbatim>\<open>while not short and len(decode) < size\<close>; it returns the
  variables that the enclosing loop carries on.
\<close>

function decode_symbols ::
  "(string \<times> nat option) list \<Rightarrow> string \<Rightarrow> nat \<Rightarrow> nat option list \<Rightarrow> nat \<Rightarrow> nat \<Rightarrow> bool \<Rightarrow>
     py_error + (nat option list \<times> nat \<times> nat)" where
  "decode_symbols reverse code sz decode start counter short =
     (if \<not> short \<and> length decode < sz then
        (case scan_code reverse code start counter short of
           (counter', short') \<Rightarrow>
             if \<not> short' then
               (case map_of reverse (py_slice code start counter') of
                  None \<Rightarrow> Inl KeyError
                | Some s \<Rightarrow>
                    decode_symbols reverse code sz (decode @ [s]) counter' counter' short')
             else decode_symbols reverse code sz decode start counter' short')
      else Inr (decode, start, counter))"
  by pat_completeness auto
termination
  by (relation "measure (\<lambda>(reverse, code, sz, decode, start, counter, short).
        if short then 0 else Suc (sz - length decode))")
    (auto split: prod.splits)

declare decode_symbols.simps [simp del]

text \<open>
  The outer loop, \<^verbatim>\<open>while len(decode) < size and index < len(text)\<close>: \<^verbatim>\<open>index\<close> runs
  over the packed bytes in order, so the model recurses over the bytes not yet read.
\<close>

fun generate_uncompressed_loop ::
  "(string \<times> nat option) list \<Rightarrow> nat list \<Rightarrow> nat \<Rightarrow> string \<Rightarrow> nat option list \<Rightarrow> nat \<Rightarrow> nat \<Rightarrow>
     py_error + nat option list" where
  "generate_uncompressed_loop reverse [] sz code decode start counter = Inr decode"
| "generate_uncompressed_loop reverse (b # bs) sz code decode start counter =
     (if length decode < sz then
        (case decode_symbols reverse (code @ byte_to_bits b) sz decode start counter False of
           Inl e \<Rightarrow> Inl e
         | Inr (decode', start', counter') \<Rightarrow>
             generate_uncompressed_loop reverse bs sz (code @ byte_to_bits b)
               decode' start' counter')
      else Inr decode)"

text \<open>\<^verbatim>\<open>for key, value in freq.items(): reverse[value] = key\<close>.\<close>

definition reverse_codes :: "codes \<Rightarrow> (string \<times> nat option) list" where
  "reverse_codes freq = fold (\<lambda>(k, v). AList.update v k) freq []"

definition generate_uncompressed :: "hnode \<Rightarrow> nat list \<Rightarrow> nat \<Rightarrow> py_error + nat list" where
  "generate_uncompressed tree bs sz =
     (case get_codes (Some tree) of
        Inl e \<Rightarrow> Inl e
      | Inr freq \<Rightarrow>
          (case generate_uncompressed_loop (reverse_codes freq) bs sz [] [] 0 1 of
             Inl e \<Rightarrow> Inl e
           | Inr decode \<Rightarrow> py_bytes decode))"

text \<open>
  \<^verbatim>\<open>bytes_to_nodes\<close> reads four bytes per record; a last group of fewer than four
  bytes raises \<^verbatim>\<open>IndexError\<close>.
\<close>

fun bytes_to_nodes :: "nat list \<Rightarrow> py_error + ReadNode list" where
  "bytes_to_nodes [] = Inr []"
| "bytes_to_nodes (a # b # c # d # buf) =
     (case bytes_to_nodes buf of
        Inl e \<Rightarrow> Inl e
      | Inr lst \<Rightarrow> Inr (\<lparr>l_type = a, l_data = b, r_type = c, r_data = d\<rparr> # lst))"
| "bytes_to_nodes buf = Inl IndexError"

text \<open>\<^verbatim>\<open>int.from_bytes(buf, "little")\<close>.\<close>

definition bytes_to_size :: "nat list \<Rightarrow> nat" where
  "bytes_to_size buf = foldr (\<lambda>b acc. b + 256 * acc) buf 0"

text \<open>
  \<^verbatim>\<open>uncompress\<close>, from the bytes of the input file to the bytes written to the output
  file. \<^verbatim>\<open>f.read(n)\<close> returns at most \<open>n\<close> bytes and moves on; \<open>limit\<close> is the
  recursion depth the interpreter allows to \<^verbatim>\<open>generate_tree_general\<close>.
\<close>

definition uncompress :: "nat \<Rightarrow> nat list \<Rightarrow> py_error + nat list" where
  "uncompress limit container =
     (case container of
        [] \<Rightarrow> Inl IndexError
      | num_nodes # rest \<Rightarrow>
          (case bytes_to_nodes (take (num_nodes * 4) rest) of
             Inl e \<Rightarrow> Inl e
           | Inr node_lst \<Rightarrow>
               (case generate_tree_general limit node_lst (int num_nodes - 1) of
                  Inl e \<Rightarrow> Inl e
                | Inr tree \<Rightarrow>
                    generate_uncompressed tree
                      (drop 4 (drop (num_nodes * 4) rest))
                      (bytes_to_size (take 4 (drop (num_nodes * 4) rest))))))"

subsection \<open>Predicates used to state properties\<close>

text \<open>
  \<open>reach node_lst i j\<close>: the index \<open>j\<close> is \<open>i\<close> itself or is referred to, through
  fields whose flag \<^verbatim>\<open>generate_tree_general\<close> takes for a reference, by a record that is
  reached from \<open>i\<close>.
\<close>

inductive reach :: "ReadNode list \<Rightarrow> int \<Rightarrow> int \<Rightarrow> bool" for node_lst :: "ReadNode list" and i :: int where
  reach_root: "reach node_lst i i"
| reach_left: "reach node_lst i j \<Longrightarrow> py_index node_lst j = Inr x \<Longrightarrow> l_type x \<noteq> 0 \<Longrightarrow>
     reach node_lst i (int (l_data x))"
| reach_right: "reach node_lst i j \<Longrightarrow> py_index node_lst j = Inr x \<Longrightarrow> r_type x \<noteq> 0 \<Longrightarrow>
     reach node_lst i (int (r_data x))"

text \<open>
  A tree as the Tree Builder and the decoder build it on bytes: every internal node has
  both children and no symbol, and every leaf carries a byte.
\<close>

definition byte_leaf :: "hnode \<Rightarrow> bool" where
  "byte_leaf t = (is_leaf t \<and> (case symbol t of None \<Rightarrow> False | Some x \<Rightarrow> x < 256))"

fun full_tree :: "hnode \<Rightarrow> bool" where
  "full_tree (HuffmanNode s l r n) =
     (case l of
        None \<Rightarrow> False
      | Some a \<Rightarrow>
          (case r of
             None \<Rightarrow> False
           | Some b \<Rightarrow>
               s = None \<and>
               (if is_leaf a then byte_leaf a else full_tree a) \<and>
               (if is_leaf b then byte_leaf b else full_tree b)))"


text \<open>
  The packed form of a bit string in the words of the spec (section 4.5): the bits are
  cut into groups of 8, the last group holds what remains, and a group is read as a byte
  with its first bit at bit 7, zero bits filling it on the right.
\<close>

definition bit_string :: "string \<Rightarrow> bool" where
  "bit_string s = list_all (\<lambda>c. c = CHR ''0'' \<or> c = CHR ''1'') s"

fun bits_value :: "nat \<Rightarrow> string \<Rightarrow> nat" where
  "bits_value pos [] = 0"
| "bits_value pos (c # cs) = (if c = CHR ''1'' then 2 ^ (7 - pos) else 0) + bits_value (Suc pos) cs"

function chunks8 :: "string \<Rightarrow> string list" where
  "chunks8 bits = (if length bits \<le> 8 then [bits] else take 8 bits # chunks8 (drop 8 bits))"
  by pat_completeness auto
termination
  by (relation "measure length") auto

declare chunks8.simps [simp del]

text \<open>
  The bits of an input under a code table, and the tables whose codes for the input are
  bit strings of at most 8 bits.
\<close>

definition code_bits :: "codes \<Rightarrow> nat list \<Rightarrow> string" where
  "code_bits codes bs =
     concat (map (\<lambda>i. case map_of codes (Some i) of None \<Rightarrow> [] | Some c \<Rightarrow> c) bs)"

definition short_codes :: "codes \<Rightarrow> nat list \<Rightarrow> bool" where
  "short_codes codes bs =
     list_all (\<lambda>i. case map_of codes (Some i) of
                      None \<Rightarrow> False
                    | Some c \<Rightarrow> bit_string c \<and> length c \<le> 8) bs"

text \<open>
  The keys that the working list of \<^verbatim>\<open>huffman_tree\<close> holds on a table of bytes: a
  byte, or a tree built from bytes.
\<close>

definition good_key :: "key \<Rightarrow> bool" where
  "good_key k = (case k of SymbolKey s \<Rightarrow> s < 256 | NodeKey t \<Rightarrow> full_tree t)"

text \<open>
  The unpacker in the words of the spec (section 4.5): it consumes the bits in order and
  "for each bit sequence greedily matches the shortest prefix that equals a known code,
  emitting that symbol and resetting the match window to the next bit", until the
  expected count of symbols is emitted; the bits that are left when no prefix of them is
  a code are not interpreted. \<open>shortest_match reverse bits k\<close> is the least length
  \<open>j \<ge> k\<close> for which the first \<open>j\<close> bits are a code of the table, with its symbol, and
  \<open>greedy_decode reverse bits k n\<close> are the symbols, at most \<open>n\<close>, that are matched one
  after the other, the first of them on at least \<open>k\<close> bits. (The source tries the lengths
  from 1 on for the first symbol and from 0 on, the empty slice, after a match; the two
  differ only for a table that has the empty string as a code.)
\<close>

function shortest_match ::
  "(string \<times> nat option) list \<Rightarrow> string \<Rightarrow> nat \<Rightarrow> (nat \<times> nat option) option" where
  "shortest_match reverse bits k =
     (if length bits < k then None
      else (case map_of reverse (take k bits) of
              Some s \<Rightarrow> Some (k, s)
            | None \<Rightarrow> shortest_match reverse bits (Suc k)))"
  by pat_completeness auto
termination
  by (relation "measure (\<lambda>(reverse, bits, k). Suc (length bits) - k)") auto

declare shortest_match.simps [simp del]

fun greedy_decode ::
  "(string \<times> nat option) list \<Rightarrow> string \<Rightarrow> nat \<Rightarrow> nat \<Rightarrow> nat option list" where
  "greedy_decode reverse bits k 0 = []"
| "greedy_decode reverse bits k (Suc n) =
     (case shortest_match reverse bits k of
        None \<Rightarrow> []
      | Some (j, s) \<Rightarrow> s # greedy_decode reverse (drop j bits) 0 n)"

section \<open>Properties\<close>

subsection \<open>Bytes and bit strings\<close>

lemma get_bit_of_bool: "get_bit b n = of_bool (bit b n)"
  unfolding get_bit_def
  by (rule bit_eqI) (auto simp: bit_simps simp del: push_bit_of_1)

lemma py_str_bit: "py_str (of_bool x) = [bit_char x]"
  by (simp add: py_str.simps digit_char_def bit_char_def)

lemma rev_upt_8: "rev [0..<8] = [7, 6, 5, 4, 3, 2, 1, 0::nat]"
  by (simp add: upt_rec)

lemma byte_to_bits_eq: "byte_to_bits b = map (\<lambda>n. bit_char (bit b n)) [7, 6, 5, 4, 3, 2, 1, 0]"
  unfolding byte_to_bits_def rev_upt_8
  by (simp add: get_bit_of_bool py_str_bit)

lemma py_int_bit_char: "py_int (bit_char x) = Inr (of_bool x)"
  by (simp add: py_int_def bit_char_def)

lemma sum_upto_8:
  "(\<Sum>k = 0..<8. f k) = f 7 + (f 6 + (f 5 + (f 4 + (f 3 + (f 2 + (f 1 + (f 0 + (0::nat))))))))"
  for f :: "nat \<Rightarrow> nat"
proof -
  have "{0..<8::nat} = {0, 1, 2, 3, 4, 5, 6, 7}"
    by auto
  then show ?thesis
    by simp
qed

lemma bits_to_byte_bits:
  "bits_to_byte (map (\<lambda>n. bit_char (bit b n)) [7, 6, 5, 4, 3, 2, 1, 0]) = Inr (take_bit 8 b)"
  unfolding take_bit_sum [of 8 b] sum_upto_8 bits_to_byte_def
  by (simp add: py_int_bit_char eval_nat_numeral del: push_bit_of_Suc_0 push_bit_Suc)

text \<open>
  Claim C10: for every byte value \<open>b\<close> in \<open>0..255\<close>, \<^verbatim>\<open>byte_to_bits(b)\<close> is a string of
  exactly 8 characters, each \<^verbatim>\<open>'0'\<close> or \<^verbatim>\<open>'1'\<close>, and \<^verbatim>\<open>bits_to_byte\<close> maps it back
  to \<open>b\<close> (without raising).
\<close>

theorem byte_to_bits_roundtrip:
  "b < 256 \<Longrightarrow>
     length (byte_to_bits b) = 8 \<and>
     (\<forall>c \<in> set (byte_to_bits b). c = CHR ''0'' \<or> c = CHR ''1'') \<and>
     bits_to_byte (byte_to_bits b) = Inr b"
proof -
  assume "b < 256"
  then have "take_bit 8 b = b"
    by (simp add: take_bit_nat_eq_self)
  then show ?thesis
    unfolding byte_to_bits_eq bits_to_byte_bits by (simp add: bit_char_def)
qed

theorem byte_to_bits_roundtrip_witness:
  "(14::nat) < 256 \<and> length (byte_to_bits 14) = 8 \<and> bits_to_byte (byte_to_bits 14) = Inr 14"
  using byte_to_bits_roundtrip [of 14] by simp

subsection \<open>Degenerate inputs of the compressor\<close>

lemma huffman_tree_single:
  "huffman_tree [(s, c)] = Inr (HuffmanNode None (Some (leaf s)) None None)"
  by (simp add: huffman_tree_def)

lemma get_codes_single:
  "get_codes (Some (HuffmanNode None (Some (leaf s)) None None)) = Inl AttributeError"
  by (simp add: get_codes.simps leaf_def is_leaf_def)

text \<open>
  Claim C3 (compressing a zero-length buffer succeeds with an empty container) against
  the code: the frequency table of the empty buffer is empty, \<^verbatim>\<open>huffman_tree\<close> enters
  its loop (the length is not 1) and \<^verbatim>\<open>take_min\<close> reads \<^verbatim>\<open>lst[0]\<close> of the empty list:
  \<^verbatim>\<open>compress\<close> raises \<^verbatim>\<open>IndexError\<close> and writes nothing.
\<close>

theorem compress_empty_fails: "compress [] = Inl IndexError"
  by (simp add: compress_def make_freq_dict_def huffman_tree_def huffman_while.simps
      take_min_def)

text \<open>
  Claim C4 (one distinct symbol: the root has a left leaf with the symbol and no right
  child, and the symbol gets the code "0") against the code: the Tree Builder returns
  that root for every one-entry frequency table, and \<^verbatim>\<open>get_codes\<close> on it, after storing
  "0" for the left leaf, calls \<^verbatim>\<open>is_leaf\<close> on the absent right child and raises
  \<^verbatim>\<open>AttributeError\<close>: no code table is returned.
\<close>

theorem single_symbol_tree_has_no_codes:
  "huffman_tree [(s, c)] = Inr (HuffmanNode None (Some (leaf s)) None None) \<and>
   get_codes (Some (HuffmanNode None (Some (leaf s)) None None)) = Inl AttributeError"
  by (simp add: huffman_tree_single get_codes_single)

subsection \<open>The postorder reconstruction\<close>

text \<open>
  Claim C8: \<^verbatim>\<open>generate_tree_postorder\<close> ignores its \<^verbatim>\<open>root_index\<close> argument: for every
  record list and any two index values the results (a tree or an exception) are the same.
\<close>

theorem generate_tree_postorder_ignores_root_index:
  "generate_tree_postorder node_lst i = generate_tree_postorder node_lst j"
  by (simp add: generate_tree_postorder_def)

subsection \<open>The unpacker\<close>

lemma py_bytes_length: "py_bytes xs = Inr out \<Longrightarrow> length out = length xs"
proof (induction xs arbitrary: out)
  case Nil
  then show ?case by simp
next
  case (Cons x xs)
  then show ?case
    by (cases x) (auto split: if_splits sum.splits)
qed

lemma decode_symbols_step:
  "\<not> short \<Longrightarrow> length decode < sz \<Longrightarrow> scan_code reverse code start counter short = (c, s) \<Longrightarrow>
   decode_symbols reverse code sz decode start counter short =
     (if \<not> s then
        (case map_of reverse (py_slice code start c) of
           None \<Rightarrow> Inl KeyError
         | Some x \<Rightarrow> decode_symbols reverse code sz (decode @ [x]) c c s)
      else decode_symbols reverse code sz decode start c s)"
  by (subst decode_symbols.simps) simp

lemma decode_symbols_stop:
  "short \<or> \<not> length decode < sz \<Longrightarrow>
   decode_symbols reverse code sz decode start counter short = Inr (decode, start, counter)"
  by (subst decode_symbols.simps) auto

lemma decode_symbols_bound:
  "length decode \<le> sz \<Longrightarrow>
   decode_symbols reverse code sz decode start counter short = Inr (decode', start', counter') \<Longrightarrow>
   length decode' \<le> sz"
proof (induction reverse code sz decode start counter short rule: decode_symbols.induct)
  case (1 reverse code sz decode start counter short)
  show ?case
  proof (cases "\<not> short \<and> length decode < sz")
    case False
    then have "decode_symbols reverse code sz decode start counter short = Inr (decode, start, counter)"
      by (intro decode_symbols_stop) auto
    with "1.prems" show ?thesis
      by simp
  next
    case True
    obtain c s where sc: "scan_code reverse code start counter short = (c, s)"
      by (cases "scan_code reverse code start counter short")
    from True sc have step:
      "decode_symbols reverse code sz decode start counter short =
        (if \<not> s then
          (case map_of reverse (py_slice code start c) of
             None \<Rightarrow> Inl KeyError
           | Some x \<Rightarrow> decode_symbols reverse code sz (decode @ [x]) c c s)
         else decode_symbols reverse code sz decode start c s)"
      by (intro decode_symbols_step) auto
    show ?thesis
    proof (cases s)
      case True
      with step "1.prems" have "decode_symbols reverse code sz decode start c s = Inr (decode', start', counter')"
        by simp
      with "1.IH"(2) [OF \<open>\<not> short \<and> length decode < sz\<close> sc [symmetric] _ "1.prems"(1)] True
      show ?thesis by simp
    next
      case False
      with step "1.prems" obtain x where
        x: "map_of reverse (py_slice code start c) = Some x" and
        r: "decode_symbols reverse code sz (decode @ [x]) c c s = Inr (decode', start', counter')"
        by (auto split: option.splits)
      from \<open>\<not> short \<and> length decode < sz\<close> have "length (decode @ [x]) \<le> sz"
        by simp
      with "1.IH"(1) [OF \<open>\<not> short \<and> length decode < sz\<close> sc [symmetric] _ x _ r] False
      show ?thesis by simp
    qed
  qed
qed

lemma generate_uncompressed_loop_bound:
  "length decode \<le> sz \<Longrightarrow>
   generate_uncompressed_loop reverse bs sz code decode start counter = Inr out \<Longrightarrow>
   length out \<le> sz"
proof (induction bs arbitrary: code decode start counter)
  case Nil
  then show ?case by simp
next
  case (Cons b bs)
  show ?case
  proof (cases "length decode < sz")
    case False
    with Cons.prems show ?thesis by simp
  next
    case True
    with Cons.prems obtain d s c where
      d: "decode_symbols reverse (code @ byte_to_bits b) sz decode start counter False = Inr (d, s, c)"
      and r: "generate_uncompressed_loop reverse bs sz (code @ byte_to_bits b) d s c = Inr out"
      by (auto split: sum.splits)
    from decode_symbols_bound [OF Cons.prems(1) d] have "length d \<le> sz" .
    then show ?thesis
      using r by (rule Cons.IH)
  qed
qed

text \<open>
  Claim C9: for every tree, packed byte sequence and size, the unpacker returns at most
  \<open>size\<close> symbols: whenever \<^verbatim>\<open>generate_uncompressed\<close> returns a byte string, its
  length does not exceed the requested size, whatever the bit stream holds after the
  last symbol. (The loops of the model are total functions; on a tree built from byte
  records the unpacker always returns, see \<open>generate_uncompressed_total\<close>.)
\<close>

theorem generate_uncompressed_at_most_size:
  "generate_uncompressed tree bs sz = Inr out \<Longrightarrow> length out \<le> sz"
proof -
  assume a: "generate_uncompressed tree bs sz = Inr out"
  then obtain freq decode where
    l: "generate_uncompressed_loop (reverse_codes freq) bs sz [] [] 0 1 = Inr decode" and
    b: "py_bytes decode = Inr out"
    unfolding generate_uncompressed_def by (auto split: sum.splits)
  have "length decode \<le> sz"
    using _ l by (rule generate_uncompressed_loop_bound) simp
  with py_bytes_length [OF b] show ?thesis
    by simp
qed

lemma get_codes_pair:
  "get_codes (Some (HuffmanNode None (Some (leaf a)) (Some (leaf b)) None)) =
     Inr (AList.update (Some b) ''1'' [(Some a, ''0'')])"
  by (simp add: get_codes.simps leaf_def is_leaf_def)

lemma byte_to_bits_64: "byte_to_bits 64 = ''01000000''"
  by (simp add: byte_to_bits_eq bit_char_def bit_Suc_0_iff)

lemma generate_uncompressed_example:
  "generate_uncompressed (HuffmanNode None (Some (leaf 3)) (Some (leaf 2)) None) [64] 2 =
     Inr [3, 2]"
  unfolding generate_uncompressed_def get_codes_pair
  by (simp add: reverse_codes_def byte_to_bits_64 decode_symbols.simps scan_code.simps
      py_slice_def)

text \<open>
  The packed byte \<open>01000000\<close> holds eight decodable bits; with size 2 only the first
  two symbols are returned.
\<close>

theorem generate_uncompressed_at_most_size_witness:
  "generate_uncompressed (HuffmanNode None (Some (leaf 3)) (Some (leaf 2)) None) [64] 2 =
     Inr [3, 2] \<and> length [3::nat, 2] \<le> 2"
  using generate_uncompressed_at_most_size [OF generate_uncompressed_example]
    generate_uncompressed_example
  by simp

subsection \<open>Malformed containers\<close>








lemma update_keys_subset: "fst ` set (AList.update k v al) \<subseteq> insert k (fst ` set al)"
  by (induction al) auto
















lemma shortest_match_range:
  "shortest_match reverse bits k = Some (j, s) \<Longrightarrow>
   k \<le> j \<and> j \<le> length bits \<and> map_of reverse (take j bits) = Some s"
proof (induction reverse bits k rule: shortest_match.induct)
  case (1 reverse bits k)
  from "1.prems" have le: "\<not> length bits < k"
    by (subst (asm) shortest_match.simps) (simp split: if_splits)
  show ?case
  proof (cases "map_of reverse (take k bits)")
    case None
    with "1.prems" le have "shortest_match reverse bits (Suc k) = Some (j, s)"
      by (subst (asm) shortest_match.simps) simp
    from "1.IH" [OF le None this] show ?thesis by simp
  next
    case (Some x)
    with "1.prems" le have "j = k" "s = x"
      by (subst (asm) shortest_match.simps, simp)+
    with Some le show ?thesis by simp
  qed
qed











lemma greedy_decode_values: "set (greedy_decode reverse bits k n) \<subseteq> snd ` set reverse"
proof (induction n arbitrary: bits k)
  case 0
  then show ?case by simp
next
  case (Suc n)
  show ?case
  proof (cases "shortest_match reverse bits k")
    case None
    then show ?thesis by simp
  next
    case (Some p)
    obtain j x where p: "p = (j, x)" by (cases p)
    from shortest_match_range [OF Some [unfolded p]] have "map_of reverse (take j bits) = Some x"
      by simp
    then have "x \<in> snd ` set reverse"
      by (metis map_of_SomeD image_eqI snd_conv)
    with Suc.IH [of "drop j bits" 0] Some p show ?thesis by auto
  qed
qed




lemma generate_tree_general_pos:
  "0 < depth \<Longrightarrow>
   generate_tree_general depth node_lst i =
     (case py_index node_lst i of
        Inl e \<Rightarrow> Inl e
      | Inr x \<Rightarrow>
          (case (if l_type x \<noteq> 0 then generate_tree_general (depth - 1) node_lst (int (l_data x))
                 else Inr (leaf (l_data x))) of
             Inl e \<Rightarrow> Inl e
           | Inr l \<Rightarrow>
               (case (if r_type x \<noteq> 0 then generate_tree_general (depth - 1) node_lst (int (r_data x))
                      else Inr (leaf (r_data x))) of
                  Inl e \<Rightarrow> Inl e
                | Inr r \<Rightarrow> Inr (HuffmanNode None (Some l) (Some r) None))))"
  by (cases depth) (simp_all cong: sum.case_cong if_cong)












subsection \<open>The packer\<close>

lemma py_int_0: "py_int CHR ''0'' = Inr 0"
  by (simp add: py_int_def)

lemma py_int_1: "py_int CHR ''1'' = Inr 1"
  by (simp add: py_int_def)

lemma bits_to_byte_from_value:
  "bit_string s \<Longrightarrow> pos + length s \<le> 8 \<Longrightarrow> bits_to_byte_from pos s = Inr (bits_value pos s)"
proof (induction s arbitrary: pos)
  case Nil
  then show ?case by simp
next
  case (Cons c s)
  from Cons.prems have c: "c = CHR ''0'' \<or> c = CHR ''1''" and s: "bit_string s"
    and p: "\<not> 7 < pos" and l: "Suc pos + length s \<le> 8"
    by (simp_all add: bit_string_def)
  from Cons.IH [OF s l] have ih: "bits_to_byte_from (Suc pos) s = Inr (bits_value (Suc pos) s)" .
  from c show ?case
  proof
    assume "c = CHR ''0''"
    with p ih show ?thesis by (simp add: py_int_0)
  next
    assume "c = CHR ''1''"
    with p ih show ?thesis by (simp add: py_int_1 push_bit_eq_mult)
  qed
qed

lemma bits_value_bound: "pos + length s \<le> 8 \<Longrightarrow> bits_value pos s < 2 ^ (8 - pos)"
proof (induction s arbitrary: pos)
  case Nil
  then show ?case by simp
next
  case (Cons c s)
  from Cons.prems have e: "8 - pos = Suc (7 - pos)" and e': "8 - Suc pos = 7 - pos"
    by simp_all
  from Cons.IH [of "Suc pos"] Cons.prems have "bits_value (Suc pos) s < 2 ^ (7 - pos)"
    by (simp add: e')
  then show ?case
    unfolding e by simp
qed

lemma bits_to_byte_value:
  "bit_string s \<Longrightarrow> length s \<le> 8 \<Longrightarrow>
   bits_to_byte s = Inr (bits_value 0 s) \<and> bits_value 0 s < 256"
  using bits_to_byte_from_value [of s 0] bits_value_bound [of 0 s]
  by (simp add: bits_to_byte_def)

lemma chunks8_short: "length bits \<le> 8 \<Longrightarrow> chunks8 bits = [bits]"
  by (subst chunks8.simps) simp

lemma chunks8_long:
  "8 < length bits \<Longrightarrow> chunks8 bits = take 8 bits # chunks8 (drop 8 bits)"
  by (subst chunks8.simps) simp

lemma chunks8_nonempty: "chunks8 bits \<noteq> []"
  by (subst chunks8.simps) simp

lemma bit_string_take_drop:
  "bit_string bits \<Longrightarrow> bit_string (take n bits) \<and> bit_string (drop n bits)"
  by (auto simp: bit_string_def list_all_iff dest: in_set_takeD in_set_dropD)

lemma chunks8_bit_strings:
  "bit_string bits \<Longrightarrow> c \<in> set (chunks8 bits) \<Longrightarrow> bit_string c \<and> length c \<le> 8"
proof (induction bits rule: chunks8.induct)
  case (1 bits)
  show ?case
  proof (cases "length bits \<le> 8")
    case True
    from "1.prems"(2) have "c = bits"
      unfolding chunks8_short [OF True] by simp
    with "1.prems"(1) True show ?thesis by simp
  next
    case False
    then have l: "8 < length bits" by simp
    from "1.prems"(2) have "c = take 8 bits \<or> c \<in> set (chunks8 (drop 8 bits))"
      unfolding chunks8_long [OF l] by simp
    then show ?thesis
    proof
      assume "c = take 8 bits"
      with bit_string_take_drop [OF "1.prems"(1), of 8] show ?thesis by simp
    next
      assume "c \<in> set (chunks8 (drop 8 bits))"
      with "1.IH" [OF False] bit_string_take_drop [OF "1.prems"(1), of 8] show ?thesis
        by blast
    qed
  qed
qed

lemma py_bytes_map_Some: "\<forall>b \<in> set xs. b < 256 \<Longrightarrow> py_bytes (map Some xs) = Inr xs"
  by (induction xs) auto

lemma bit_string_append: "bit_string (a @ b) = (bit_string a \<and> bit_string b)"
  by (simp add: bit_string_def)

lemma generate_compressed_loop_chunks:
  "short_codes codes bs \<Longrightarrow> bit_string byte \<Longrightarrow> length byte \<le> 8 \<Longrightarrow>
   generate_compressed_loop codes bs y byte =
     Inr (y @ map (bits_value 0) (butlast (chunks8 (byte @ code_bits codes bs))),
          last (chunks8 (byte @ code_bits codes bs)))"
proof (induction bs arbitrary: y byte)
  case Nil
  then show ?case
    by (simp add: code_bits_def chunks8_short)
next
  case (Cons i rest)
  from Cons.prems(1) obtain c where
    c: "map_of codes (Some i) = Some c" and bc: "bit_string c" and lc: "length c \<le> 8"
    and sr: "short_codes codes rest"
    by (auto simp: short_codes_def split: option.splits)
  have cb: "code_bits codes (i # rest) = c @ code_bits codes rest"
    by (simp add: code_bits_def c)
  show ?case
  proof (cases "length byte + length c > 8")
    case False
    from Cons.prems(2) bc have b: "bit_string (byte @ c)"
      by (simp add: bit_string_append)
    from False have l: "length (byte @ c) \<le> 8" by simp
    from Cons.IH [OF sr b l, of y] False c show ?thesis
      by (simp add: cb)
  next
    case True
    let ?extra = "drop 8 (byte @ c)"
    from Cons.prems(2) bc have b: "bit_string (byte @ c)"
      by (simp add: bit_string_append)
    from bit_string_take_drop [OF b, of 8] have bt: "bit_string (take 8 (byte @ c))"
      and be: "bit_string ?extra"
      by simp_all
    from bits_to_byte_value [OF bt] have v:
      "bits_to_byte (take 8 (byte @ c)) = Inr (bits_value 0 (take 8 (byte @ c)))"
      by simp
    from Cons.prems(3) lc have le: "length ?extra \<le> 8"
      by simp
    from True have long: "8 < length (byte @ c @ code_bits codes rest)"
      by simp
    from True have t: "take 8 (byte @ c @ code_bits codes rest) = take 8 (byte @ c)"
      and d: "drop 8 (byte @ c @ code_bits codes rest) = ?extra @ code_bits codes rest"
      by simp_all
    have ch: "chunks8 (byte @ c @ code_bits codes rest) =
        take 8 (byte @ c) # chunks8 (?extra @ code_bits codes rest)"
      unfolding chunks8_long [OF long] t d ..
    have bl: "butlast (chunks8 (byte @ c @ code_bits codes rest)) =
        take 8 (byte @ c) # butlast (chunks8 (?extra @ code_bits codes rest))"
      and la: "last (chunks8 (byte @ c @ code_bits codes rest)) =
        last (chunks8 (?extra @ code_bits codes rest))"
      unfolding ch using chunks8_nonempty by simp_all
    have "generate_compressed_loop codes (i # rest) y byte =
        generate_compressed_loop codes rest (y @ [bits_value 0 (take 8 (byte @ c))]) ?extra"
      using True c v by simp
    also note Cons.IH [OF sr be le, of "y @ [bits_value 0 (take 8 (byte @ c))]"]
    finally show ?thesis
      unfolding cb bl la by simp
  qed
qed

lemma bit_string_code_bits: "short_codes codes bs \<Longrightarrow> bit_string (code_bits codes bs)"
  by (induction bs)
    (auto simp: short_codes_def code_bits_def bit_string_def split: option.splits)

lemma generate_compressed_chunks:
  assumes "short_codes codes bs"
  shows "generate_compressed bs codes = Inr (map (bits_value 0) (chunks8 (code_bits codes bs)))"
proof -
  let ?cs = "chunks8 (code_bits codes bs)"
  have ne: "?cs \<noteq> []" by (rule chunks8_nonempty)
  from generate_compressed_loop_chunks [OF assms, of "[]" "[]"]
  have loop: "generate_compressed_loop codes bs [] [] =
      Inr (map (bits_value 0) (butlast ?cs), last ?cs)"
    by (simp add: bit_string_def)
  have all: "\<And>c. c \<in> set ?cs \<Longrightarrow> bit_string c \<and> length c \<le> 8"
    using chunks8_bit_strings [OF bit_string_code_bits [OF assms]] by blast
  from ne have "last ?cs \<in> set ?cs" by simp
  from all [OF this] bits_to_byte_value have lastv:
    "bits_to_byte (last ?cs) = Inr (bits_value 0 (last ?cs))"
    by simp
  have "map (bits_value 0) (butlast ?cs) @ [bits_value 0 (last ?cs)] =
      map (bits_value 0) (butlast ?cs @ [last ?cs])"
    by simp
  also from ne have "\<dots> = map (bits_value 0) ?cs"
    by simp
  finally have whole: "map (bits_value 0) (butlast ?cs) @ [bits_value 0 (last ?cs)] =
      map (bits_value 0) ?cs" .
  have "\<forall>b \<in> set (map (bits_value 0) ?cs). b < 256"
    using all bits_to_byte_value by auto
  from py_bytes_map_Some [OF this] show ?thesis
    unfolding generate_compressed_def loop by (simp add: lastv whole)
qed

lemma generate_compressed_example_1:
  "generate_compressed [1, 2, 1, 0] [(Some 0, ''0''), (Some 1, ''10''), (Some 2, ''11'')] =
     Inr [184]"
  by (simp add: generate_compressed_def bits_to_byte_def py_int_def)

lemma generate_compressed_example_2:
  "generate_compressed [1, 2, 1, 0, 2] [(Some 0, ''0''), (Some 1, ''10''), (Some 2, ''11'')] =
     Inr [185, 128]"
  by (simp add: generate_compressed_def bits_to_byte_def py_int_def)

lemma byte_to_bits_examples:
  "byte_to_bits 184 = ''10111000'' \<and> byte_to_bits 185 = ''10111001'' \<and>
   byte_to_bits 128 = ''10000000''"
  by (simp add: byte_to_bits_eq bit_char_def bit_Suc_0_iff)

lemma generate_compressed_long_code:
  "generate_compressed [0, 0, 0, 0, 0, 0, 0, 0, 1]
     [(Some 0, ''0''), (Some 1, ''100000000'')] = Inl ValueError"
  by (simp add: generate_compressed_def bits_to_byte_def py_int_def)

text \<open>
  Claim C6 (for every input and code table covering it, the packer emits the
  concatenated codes in bytes, the last one padded) against the code. The two examples of
  the claim pack as it says. The loop emits at most one byte per input byte, and only
  when the buffer would exceed 8 bits; with the prefix-free table \<open>{0: "0", 1:
  "100000000"}\<close> and the input \<open>[0, 0, 0, 0, 0, 0, 0, 0, 1]\<close> the buffer holds 8 bits
  when the 9-bit code arrives, 9 bits remain after the one byte is emitted, and the final
  \<^verbatim>\<open>bits_to_byte\<close> shifts by a negative count: \<^verbatim>\<open>ValueError\<close>, no output. (Where
  every code of the input has at most 8 bits the packer does what the claim says, see
  \<open>generate_compressed_chunks\<close>.)
\<close>

theorem generate_compressed_examples_and_failure:
  "generate_compressed [1, 2, 1, 0] [(Some 0, ''0''), (Some 1, ''10''), (Some 2, ''11'')] =
     Inr [184] \<and>
   byte_to_bits 184 = ''10111000'' \<and>
   generate_compressed [1, 2, 1, 0, 2] [(Some 0, ''0''), (Some 1, ''10''), (Some 2, ''11'')] =
     Inr [185, 128] \<and>
   byte_to_bits 185 = ''10111001'' \<and> byte_to_bits 128 = ''10000000'' \<and>
   generate_compressed [0, 0, 0, 0, 0, 0, 0, 0, 1]
     [(Some 0, ''0''), (Some 1, ''100000000'')] = Inl ValueError"
  using generate_compressed_example_1 generate_compressed_example_2 byte_to_bits_examples
    generate_compressed_long_code
  by simp

subsection \<open>The tree codec\<close>

text \<open>
  The index-addressed reconstruction is right on every tree that the Tree Builder
  returns for a table of two or more bytes: if the numbered tree is serialized,
  \<^verbatim>\<open>generate_tree_general\<close> at the last record returns a tree equal to it.
\<close>

lemma full_tree_node:
  assumes "full_tree t"
  obtains a b n where "t = HuffmanNode None (Some a) (Some b) n"
    and "if is_leaf a then byte_leaf a else full_tree a"
    and "if is_leaf b then byte_leaf b else full_tree b"
proof (cases t)
  case (HuffmanNode s l r n)
  with assms obtain a b where "l = Some a" "r = Some b" "s = None"
    by (auto split: option.splits)
  with assms HuffmanNode that [of a b n] show ?thesis
    by simp
qed

lemma numbering_leaf: "is_leaf a \<Longrightarrow> numbering a n = Inr (a, n)"
  by (subst numbering.simps) simp

lemma numbering_node:
  "numbering (HuffmanNode s (Some a) (Some b) k) n =
     (case numbering a n of
        Inl e \<Rightarrow> Inl e
      | Inr (a', n1) \<Rightarrow>
          (case numbering b n1 of
             Inl e \<Rightarrow> Inl e
           | Inr (b', n2) \<Rightarrow> Inr (HuffmanNode s (Some a') (Some b') (Some n2), n2 + 1)))"
  by (subst numbering.simps) (simp add: is_leaf_def split: sum.splits prod.splits)

lemma tree_to_bytes_node:
  "tree_to_bytes (HuffmanNode s (Some a) (Some b) k) =
     (case (if \<not> is_leaf a then tree_to_bytes a else Inr []) of
        Inl e \<Rightarrow> Inl e
      | Inr lb \<Rightarrow>
          (case (if \<not> is_leaf b then tree_to_bytes b else Inr []) of
             Inl e \<Rightarrow> Inl e
           | Inr rb \<Rightarrow>
               py_bytes
                 (map Some lb @ map Some rb @
                  (if is_leaf a then [Some 0, symbol a] else [Some 1, number a]) @
                  (if is_leaf b then [Some 0, symbol b] else [Some 1, number b]))))"
  by (subst tree_to_bytes.simps) (simp split: sum.splits)

lemma py_bytes_append:
  "py_bytes (map Some xs @ ys) =
     (if \<forall>x \<in> set xs. x < 256 then
        (case py_bytes ys of Inl e \<Rightarrow> Inl e | Inr r \<Rightarrow> Inr (xs @ r))
      else Inl ValueError)"
  by (induction xs) (auto split: sum.splits)

lemma bytes_to_nodes_append:
  "bytes_to_nodes x = Inr nx \<Longrightarrow>
   bytes_to_nodes (x @ y) =
     (case bytes_to_nodes y of Inl e \<Rightarrow> Inl e | Inr ny \<Rightarrow> Inr (nx @ ny))"
  by (induction x arbitrary: nx rule: bytes_to_nodes.induct) (auto split: sum.splits)

lemma py_index_at: "py_index (xs @ x # ys) (int (length xs)) = Inr x"
  by (simp add: py_index_def Let_def)

lemma node_eq_leaf: "is_leaf c \<Longrightarrow> symbol c = Some x \<Longrightarrow> node_eq (leaf x) c"
  by (cases c) (simp add: leaf_def is_leaf_def)

lemma serialize_reconstruct:
  assumes "full_tree t" and "numbering t n = Inr (t', n')" and "tree_to_bytes t' = Inr recs"
  shows "\<exists>ns. bytes_to_nodes recs = Inr ns \<and> n < n' \<and> length ns = n' - n \<and>
      number t' = Some (n' - 1) \<and> \<not> is_leaf t' \<and>
      (\<forall>pre suf d. length pre = n \<longrightarrow> n' - n \<le> d \<longrightarrow>
         (\<exists>g. generate_tree_general d (pre @ ns @ suf) (int (n' - 1)) = Inr g \<and> node_eq g t'))"
  using assms
proof (induction "size t" arbitrary: t n t' n' recs rule: less_induct)
  case less
  from less.prems(1) obtain a b k where t: "t = HuffmanNode None (Some a) (Some b) k"
    and ca: "if is_leaf a then byte_leaf a else full_tree a"
    and cb: "if is_leaf b then byte_leaf b else full_tree b"
    by (rule full_tree_node)
  from less.prems(2) obtain a' n1 b' n2 where na: "numbering a n = Inr (a', n1)"
    and nb: "numbering b n1 = Inr (b', n2)"
    and t': "t' = HuffmanNode None (Some a') (Some b') (Some n2)" and n': "n' = n2 + 1"
    unfolding t numbering_node by (auto split: sum.splits prod.splits)
  from less.prems(3) obtain lb rb where
    la: "(if \<not> is_leaf a' then tree_to_bytes a' else Inr []) = Inr lb" and
    ra: "(if \<not> is_leaf b' then tree_to_bytes b' else Inr []) = Inr rb" and
    pb: "py_bytes (map Some lb @ map Some rb @
          (if is_leaf a' then [Some 0, symbol a'] else [Some 1, number a']) @
          (if is_leaf b' then [Some 0, symbol b'] else [Some 1, number b'])) = Inr recs"
    unfolding t' tree_to_bytes_node by (auto split: sum.splits)
  have child: "\<exists>nsc f v. bytes_to_nodes cbs = Inr nsc \<and> m \<le> m1 \<and> length nsc = m1 - m \<and>
      (if is_leaf c' then [Some 0, symbol c'] else [Some 1, number c']) = [Some f, Some v] \<and>
      (\<forall>pre suf d. length pre = m \<longrightarrow> m1 - m \<le> d \<longrightarrow>
         (\<exists>g. (if f \<noteq> 0 then generate_tree_general d (pre @ nsc @ suf) (int v)
               else Inr (leaf v)) = Inr g \<and> node_eq g c'))"
    if ok: "if is_leaf c then byte_leaf c else full_tree c" and sz: "size c < size t"
      and nc: "numbering c m = Inr (c', m1)"
      and tc: "(if \<not> is_leaf c' then tree_to_bytes c' else Inr []) = Inr cbs"
    for c c' m m1 cbs
  proof (cases "is_leaf c")
    case True
    with nc numbering_leaf [OF True, of m] have c': "c' = c" and m1: "m1 = m"
      by simp_all
    from True ok obtain x where x: "symbol c = Some x"
      by (auto simp: byte_leaf_def split: option.splits)
    from True tc c' have "cbs = []" by simp
    with True c' m1 x node_eq_leaf [OF True x] show ?thesis
      by (intro exI [of _ "[]"] exI [of _ 0] exI [of _ x]) simp
  next
    case False
    with ok have f: "full_tree c" by simp
    from f obtain p q j where "c = HuffmanNode None (Some p) (Some q) j"
      by (rule full_tree_node)
    with nc have "numbering (HuffmanNode None (Some p) (Some q) j) m = Inr (c', m1)"
      by simp
    then have nl: "\<not> is_leaf c'"
      unfolding numbering_node by (auto simp: is_leaf_def split: sum.splits prod.splits)
    with tc have "tree_to_bytes c' = Inr cbs" by simp
    from less.hyps [OF sz f nc this] obtain nsc where
      1: "bytes_to_nodes cbs = Inr nsc" "m < m1" "length nsc = m1 - m"
        "number c' = Some (m1 - 1)" and
      2: "\<forall>pre suf d. length pre = m \<longrightarrow> m1 - m \<le> d \<longrightarrow>
         (\<exists>g. generate_tree_general d (pre @ nsc @ suf) (int (m1 - 1)) = Inr g \<and> node_eq g c')"
      by blast
    from 1 2 nl show ?thesis
      by (intro exI [of _ nsc] exI [of _ 1] exI [of _ "m1 - 1"]) simp
  qed
  have sa: "size a < size t" and sb: "size b < size t"
    by (simp_all add: t)
  from child [OF ca sa na la] obtain nsa fa va where
    a1: "bytes_to_nodes lb = Inr nsa" "n \<le> n1" "length nsa = n1 - n" and
    a2: "(if is_leaf a' then [Some 0, symbol a'] else [Some 1, number a']) = [Some fa, Some va]" and
    a3: "\<And>pre suf d. length pre = n \<Longrightarrow> n1 - n \<le> d \<Longrightarrow>
         \<exists>g. (if fa \<noteq> 0 then generate_tree_general d (pre @ nsa @ suf) (int va)
               else Inr (leaf va)) = Inr g \<and> node_eq g a'"
    by blast
  from child [OF cb sb nb ra] obtain nsb fb vb where
    b1: "bytes_to_nodes rb = Inr nsb" "n1 \<le> n2" "length nsb = n2 - n1" and
    b2: "(if is_leaf b' then [Some 0, symbol b'] else [Some 1, number b']) = [Some fb, Some vb]" and
    b3: "\<And>pre suf d. length pre = n1 \<Longrightarrow> n2 - n1 \<le> d \<Longrightarrow>
         \<exists>g. (if fb \<noteq> 0 then generate_tree_general d (pre @ nsb @ suf) (int vb)
               else Inr (leaf vb)) = Inr g \<and> node_eq g b'"
    by blast
  let ?rec = "\<lparr>l_type = fa, l_data = va, r_type = fb, r_data = vb\<rparr>"
  from pb have recs: "recs = lb @ rb @ [fa, va, fb, vb]"
    unfolding a2 b2 py_bytes_append by (auto split: if_splits sum.splits)
  have nodes: "bytes_to_nodes recs = Inr (nsa @ nsb @ [?rec])"
    unfolding recs bytes_to_nodes_append [OF a1(1)] bytes_to_nodes_append [OF b1(1)]
    by simp
  have "\<exists>g. generate_tree_general d (pre @ (nsa @ nsb @ [?rec]) @ suf) (int (n' - 1)) = Inr g \<and>
      node_eq g t'"
    if lp: "length pre = n" and d: "n' - n \<le> d" for pre suf d
  proof -
    from d n' a1(2) b1(2) obtain d' where d': "d = Suc d'" "n1 - n \<le> d'" "n2 - n1 \<le> d'"
      by (cases d) auto
    define lst where "lst = pre @ (nsa @ nsb @ [?rec]) @ suf"
    have len: "length (pre @ nsa @ nsb) = n2"
      using lp a1 b1 by simp
    have l0: "lst = (pre @ nsa @ nsb) @ ?rec # suf"
      and l1: "pre @ nsa @ (nsb @ ?rec # suf) = lst"
      and l2: "(pre @ nsa) @ nsb @ (?rec # suf) = lst"
      by (simp_all add: lst_def)
    from py_index_at [of "pre @ nsa @ nsb" ?rec suf]
    have "py_index lst (int n2) = Inr ?rec"
      unfolding len l0 .
    moreover from n' have "n' - 1 = n2" by simp
    ultimately have idx: "py_index lst (int (n' - 1)) = Inr ?rec"
      by (simp only:)
    from a3 [OF lp d'(2), of "nsb @ ?rec # suf"] obtain ga where
      ga: "(if fa \<noteq> 0 then generate_tree_general d' lst (int va)
            else Inr (leaf va)) = Inr ga" "node_eq ga a'"
      unfolding l1 by blast
    have "length (pre @ nsa) = n1"
      using lp a1 by simp
    from b3 [OF this d'(3), of "?rec # suf"] obtain gb where
      gb: "(if fb \<noteq> 0 then generate_tree_general d' lst (int vb)
            else Inr (leaf vb)) = Inr gb" "node_eq gb b'"
      unfolding l2 by blast
    have "generate_tree_general d lst (int (n' - 1)) =
        Inr (HuffmanNode None (Some ga) (Some gb) None)"
      unfolding d'(1) generate_tree_general.simps idx using ga(1) gb(1)
      by (auto split: if_splits)
    moreover have "node_eq (HuffmanNode None (Some ga) (Some gb) None) t'"
      unfolding t' using ga(2) gb(2) by simp
    ultimately show ?thesis
      unfolding lst_def by blast
  qed
  with nodes a1 b1 t' n' show ?case
    by (intro exI [of _ "nsa @ nsb @ [?rec]"]) (simp add: is_leaf_def)
qed

lemma fold_smallest_mem:
  "fold (\<lambda>kv smallest. if snd kv < snd smallest then kv else smallest) xs a \<in> insert a (set xs)"
proof (induction xs arbitrary: a)
  case Nil
  then show ?case by simp
next
  case (Cons x xs)
  from Cons.IH [of "if snd x < snd a then x else a"] show ?case
    by (auto split: if_splits)
qed

lemma py_remove_subset: "py_remove x lst = Inr rest \<Longrightarrow> set rest \<subseteq> set lst"
  by (induction lst arbitrary: rest) (auto split: if_splits sum.splits)

lemma take_min_mem: "take_min lst = Inr (m, rest) \<Longrightarrow> m \<in> set lst \<and> set rest \<subseteq> set lst"
proof -
  assume a: "take_min lst = Inr (m, rest)"
  then obtain p ps where l: "lst = p # ps"
    by (cases lst) (simp_all add: take_min_def)
  let ?m = "fold (\<lambda>kv smallest. if snd kv < snd smallest then kv else smallest) lst p"
  from a l have r: "py_remove ?m lst = Inr rest" and m: "m = ?m"
    unfolding take_min_def by (auto split: sum.splits simp del: py_remove.simps)
  from fold_smallest_mem [of lst p] l have "?m \<in> set lst"
    by auto
  with m py_remove_subset [OF r] show ?thesis
    by simp
qed

lemma full_tree_not_leaf: "full_tree t \<Longrightarrow> \<not> is_leaf t"
  by (cases t) (auto simp: is_leaf_def split: option.splits)

lemma as_node_child:
  assumes "good_key k"
  shows "if is_leaf (as_node k) then byte_leaf (as_node k) else full_tree (as_node k)"
proof (cases k)
  case (SymbolKey s)
  with assms show ?thesis
    by (simp add: good_key_def byte_leaf_def leaf_def is_leaf_def)
next
  case (NodeKey t)
  with assms show ?thesis
    by (simp add: good_key_def full_tree_not_leaf)
qed

lemma huffman_while_full:
  "\<forall>kw \<in> set freq. good_key (fst kw) \<Longrightarrow> (\<forall>r. cur = Some r \<longrightarrow> full_tree r) \<Longrightarrow>
   huffman_while freq cur = Inr t \<Longrightarrow> full_tree t"
proof (induction freq cur rule: huffman_while.induct)
  case (1 freq cur)
  show ?case
  proof (cases "length freq \<noteq> 1")
    case False
    with "1.prems"(2,3) show ?thesis
      by (subst (asm) huffman_while.simps) (auto split: option.splits)
  next
    case True
    with "1.prems"(3) obtain x freq1 y freq2 where
      x: "take_min freq = Inr (x, freq1)" and y: "take_min freq1 = Inr (y, freq2)" and
      r: "huffman_while
            (freq2 @
              [(NodeKey (HuffmanNode None (Some (as_node (fst x))) (Some (as_node (fst y))) None),
                snd x + snd y)])
            (Some (HuffmanNode None (Some (as_node (fst x))) (Some (as_node (fst y))) None)) = Inr t"
      by (subst (asm) huffman_while.simps) (auto split: sum.splits)
    from take_min_mem [OF x] take_min_mem [OF y] "1.prems"(1)
    have gx: "good_key (fst x)" and gy: "good_key (fst y)"
      and g2: "\<forall>kw \<in> set freq2. good_key (fst kw)"
      by auto
    have new: "full_tree (HuffmanNode None (Some (as_node (fst x))) (Some (as_node (fst y))) None)"
      using as_node_child [OF gx] as_node_child [OF gy] by simp
    show ?thesis
    proof (rule "1.IH" [OF True x refl y refl _ _ r])
      from g2 new show "\<forall>kw \<in> set (freq2 @
          [(NodeKey (HuffmanNode None (Some (as_node (fst x))) (Some (as_node (fst y))) None),
            snd x + snd y)]). good_key (fst kw)"
        by (auto simp: good_key_def)
      from new show "\<forall>r. Some (HuffmanNode None (Some (as_node (fst x)))
          (Some (as_node (fst y))) None) = Some r \<longrightarrow> full_tree r"
        by simp
    qed
  qed
qed

lemma huffman_tree_full:
  assumes "\<forall>sc \<in> set freq_dict. fst sc < 256" and "length freq_dict \<noteq> 1"
    and "huffman_tree freq_dict = Inr t"
  shows "full_tree t"
proof (rule huffman_while_full)
  from assms(2,3) show "huffman_while (map (\<lambda>(s, c). (SymbolKey s, c)) freq_dict) None = Inr t"
    by (simp add: huffman_tree_def)
  from assms(1) show "\<forall>kw \<in> set (map (\<lambda>(s, c). (SymbolKey s, c)) freq_dict). good_key (fst kw)"
    by (auto simp: good_key_def)
  show "\<forall>r. None = Some r \<longrightarrow> full_tree r"
    by simp
qed

lemma general_reconstruction:
  assumes "\<forall>sc \<in> set freq_dict. fst sc < 256" and "length freq_dict \<noteq> 1"
    and "huffman_tree freq_dict = Inr t0" and "number_nodes t0 = Inr t"
    and "tree_to_bytes t = Inr recs"
  shows "\<exists>ns. bytes_to_nodes recs = Inr ns \<and>
     (\<forall>limit \<ge> length ns. \<exists>g.
        generate_tree_general limit ns (int (length ns) - 1) = Inr g \<and> node_eq g t)"
proof -
  from huffman_tree_full [OF assms(1-3)] have f: "full_tree t0" .
  from assms(4) obtain n' where n: "numbering t0 0 = Inr (t, n')"
    by (auto simp: number_nodes_def split: sum.splits)
  from serialize_reconstruct [OF f n assms(5)] obtain ns where
    1: "bytes_to_nodes recs = Inr ns" "0 < n'" "length ns = n' - 0" and
    2: "\<And>pre suf d. length pre = 0 \<Longrightarrow> n' - 0 \<le> d \<Longrightarrow>
         \<exists>g. generate_tree_general d (pre @ ns @ suf) (int (n' - 1)) = Inr g \<and> node_eq g t"
    by blast
  from 1 have i: "int (n' - 1) = int (length ns) - 1"
    by simp
  have "\<exists>g. generate_tree_general limit ns (int (length ns) - 1) = Inr g \<and> node_eq g t"
    if "length ns \<le> limit" for limit
    using 2 [of "[]" limit "[]"] that 1 unfolding i by simp
  with 1 show ?thesis
    by blast
qed

lemma make_freq_dict_abcde:
  "make_freq_dict [97, 98, 99, 100, 101] = [(97, 1), (98, 1), (99, 1), (100, 1), (101, 1)]"
  by (simp add: make_freq_dict_def)

lemma huffman_tree_abcde:
  "huffman_tree [(97, 1), (98, 1), (99, 1), (100, 1), (101, 1)] =
     Inr (HuffmanNode None
       (Some (HuffmanNode None (Some (leaf 99)) (Some (leaf 100)) None))
       (Some (HuffmanNode None (Some (leaf 101))
           (Some (HuffmanNode None (Some (leaf 97)) (Some (leaf 98)) None)) None))
       None)"
  by (simp add: huffman_tree_def huffman_while.simps take_min_def leaf_def)

lemma number_nodes_abcde:
  "number_nodes (HuffmanNode None
       (Some (HuffmanNode None (Some (leaf 99)) (Some (leaf 100)) None))
       (Some (HuffmanNode None (Some (leaf 101))
           (Some (HuffmanNode None (Some (leaf 97)) (Some (leaf 98)) None)) None))
       None) =
     Inr (HuffmanNode None
       (Some (HuffmanNode None (Some (leaf 99)) (Some (leaf 100)) (Some 0)))
       (Some (HuffmanNode None (Some (leaf 101))
           (Some (HuffmanNode None (Some (leaf 97)) (Some (leaf 98)) (Some 1))) (Some 2)))
       (Some 3))"
  by (simp add: number_nodes_def numbering.simps leaf_def is_leaf_def)

lemma tree_to_bytes_abcde:
  "tree_to_bytes (HuffmanNode None
       (Some (HuffmanNode None (Some (leaf 99)) (Some (leaf 100)) (Some 0)))
       (Some (HuffmanNode None (Some (leaf 101))
           (Some (HuffmanNode None (Some (leaf 97)) (Some (leaf 98)) (Some 1))) (Some 2)))
       (Some 3)) =
     Inr [0, 99, 0, 100, 0, 97, 0, 98, 0, 101, 1, 1, 1, 0, 1, 2]"
  by (simp add: tree_to_bytes.simps leaf_def is_leaf_def)

lemma bytes_to_nodes_abcde:
  "bytes_to_nodes [0, 99, 0, 100, 0, 97, 0, 98, 0, 101, 1, 1, 1, 0, 1, 2] =
     Inr [\<lparr>l_type = 0, l_data = 99, r_type = 0, r_data = 100\<rparr>,
      \<lparr>l_type = 0, l_data = 97, r_type = 0, r_data = 98\<rparr>,
      \<lparr>l_type = 0, l_data = 101, r_type = 1, r_data = 1\<rparr>,
      \<lparr>l_type = 1, l_data = 0, r_type = 1, r_data = 2\<rparr>]"
  by simp

lemma generate_tree_postorder_abcde:
  "generate_tree_postorder [\<lparr>l_type = 0, l_data = 99, r_type = 0, r_data = 100\<rparr>,
      \<lparr>l_type = 0, l_data = 97, r_type = 0, r_data = 98\<rparr>,
      \<lparr>l_type = 0, l_data = 101, r_type = 1, r_data = 1\<rparr>,
      \<lparr>l_type = 1, l_data = 0, r_type = 1, r_data = 2\<rparr>] 3 =
     Inr (HuffmanNode None
       (Some (HuffmanNode None (Some (leaf 97)) (Some (leaf 98)) None))
       (Some (HuffmanNode None (Some (leaf 101))
           (Some (HuffmanNode None (Some (leaf 99)) (Some (leaf 100)) None)) None))
       None)"
  by (simp add: generate_tree_postorder_def py_pop0_def)

lemma generate_tree_general_abcde:
  "generate_tree_general 1000 [\<lparr>l_type = 0, l_data = 99, r_type = 0, r_data = 100\<rparr>,
      \<lparr>l_type = 0, l_data = 97, r_type = 0, r_data = 98\<rparr>,
      \<lparr>l_type = 0, l_data = 101, r_type = 1, r_data = 1\<rparr>,
      \<lparr>l_type = 1, l_data = 0, r_type = 1, r_data = 2\<rparr>] 3 =
     Inr (HuffmanNode None
       (Some (HuffmanNode None (Some (leaf 99)) (Some (leaf 100)) None))
       (Some (HuffmanNode None (Some (leaf 101))
           (Some (HuffmanNode None (Some (leaf 97)) (Some (leaf 98)) None)) None))
       None)"
  by (simp add: generate_tree_general_pos py_index_def)

lemma node_eq_abcde:
  "\<not> node_eq (HuffmanNode None
       (Some (HuffmanNode None (Some (leaf 97)) (Some (leaf 98)) None))
       (Some (HuffmanNode None (Some (leaf 101))
           (Some (HuffmanNode None (Some (leaf 99)) (Some (leaf 100)) None)) None))
       None)
     (HuffmanNode None
       (Some (HuffmanNode None (Some (leaf 99)) (Some (leaf 100)) (Some 0)))
       (Some (HuffmanNode None (Some (leaf 101))
           (Some (HuffmanNode None (Some (leaf 97)) (Some (leaf 98)) (Some 1))) (Some 2)))
       (Some 3)) \<and>
   node_eq (HuffmanNode None
       (Some (HuffmanNode None (Some (leaf 99)) (Some (leaf 100)) None))
       (Some (HuffmanNode None (Some (leaf 101))
           (Some (HuffmanNode None (Some (leaf 97)) (Some (leaf 98)) None)) None))
       None)
     (HuffmanNode None
       (Some (HuffmanNode None (Some (leaf 99)) (Some (leaf 100)) (Some 0)))
       (Some (HuffmanNode None (Some (leaf 101))
           (Some (HuffmanNode None (Some (leaf 97)) (Some (leaf 98)) (Some 1))) (Some 2)))
       (Some 3))"
  by (simp add: leaf_def)

lemma number_nodes_single:
  "number_nodes (HuffmanNode None (Some (leaf s)) None None) = Inl AttributeError"
  by (simp add: number_nodes_def numbering.simps leaf_def is_leaf_def)

lemma tree_to_bytes_single:
  "tree_to_bytes (HuffmanNode None (Some (leaf s)) None n) = Inl AttributeError"
  by (simp add: tree_to_bytes.simps leaf_def is_leaf_def)

text \<open>
  Claim C2 (for every tree of the Tree Builder, both reconstructions of the serialized
  records give a tree structurally identical to it) against the code, at the tree built
  for the input bytes \<open>[97, 98, 99, 100, 101]\<close>: the left child of the root is an internal
  node and so is a grandchild on the right. The index-addressed reconstruction returns
  the tree. The postorder one takes the oldest finished subtree from its queue where the
  newest is due, and returns a tree with the two subtrees \<open>(99, 100)\<close> and \<open>(97, 98)\<close>
  exchanged. The one-symbol tree cannot be serialized at all: numbering it and
  \<^verbatim>\<open>tree_to_bytes\<close> both raise \<^verbatim>\<open>AttributeError\<close>. (For the index-addressed
  reconstruction of the other trees see \<open>general_reconstruction\<close>.)
\<close>

theorem generate_tree_postorder_wrong_tree:
  "huffman_tree (make_freq_dict [97, 98, 99, 100, 101]) =
     Inr (HuffmanNode None
       (Some (HuffmanNode None (Some (leaf 99)) (Some (leaf 100)) None))
       (Some (HuffmanNode None (Some (leaf 101))
           (Some (HuffmanNode None (Some (leaf 97)) (Some (leaf 98)) None)) None))
       None) \<and>
   number_nodes (HuffmanNode None
       (Some (HuffmanNode None (Some (leaf 99)) (Some (leaf 100)) None))
       (Some (HuffmanNode None (Some (leaf 101))
           (Some (HuffmanNode None (Some (leaf 97)) (Some (leaf 98)) None)) None))
       None) =
     Inr (HuffmanNode None
       (Some (HuffmanNode None (Some (leaf 99)) (Some (leaf 100)) (Some 0)))
       (Some (HuffmanNode None (Some (leaf 101))
           (Some (HuffmanNode None (Some (leaf 97)) (Some (leaf 98)) (Some 1))) (Some 2)))
       (Some 3)) \<and>
   tree_to_bytes (HuffmanNode None
       (Some (HuffmanNode None (Some (leaf 99)) (Some (leaf 100)) (Some 0)))
       (Some (HuffmanNode None (Some (leaf 101))
           (Some (HuffmanNode None (Some (leaf 97)) (Some (leaf 98)) (Some 1))) (Some 2)))
       (Some 3)) =
     Inr [0, 99, 0, 100, 0, 97, 0, 98, 0, 101, 1, 1, 1, 0, 1, 2] \<and>
   bytes_to_nodes [0, 99, 0, 100, 0, 97, 0, 98, 0, 101, 1, 1, 1, 0, 1, 2] =
     Inr [\<lparr>l_type = 0, l_data = 99, r_type = 0, r_data = 100\<rparr>,
      \<lparr>l_type = 0, l_data = 97, r_type = 0, r_data = 98\<rparr>,
      \<lparr>l_type = 0, l_data = 101, r_type = 1, r_data = 1\<rparr>,
      \<lparr>l_type = 1, l_data = 0, r_type = 1, r_data = 2\<rparr>] \<and>
   generate_tree_postorder [\<lparr>l_type = 0, l_data = 99, r_type = 0, r_data = 100\<rparr>,
      \<lparr>l_type = 0, l_data = 97, r_type = 0, r_data = 98\<rparr>,
      \<lparr>l_type = 0, l_data = 101, r_type = 1, r_data = 1\<rparr>,
      \<lparr>l_type = 1, l_data = 0, r_type = 1, r_data = 2\<rparr>] 3 =
     Inr (HuffmanNode None
       (Some (HuffmanNode None (Some (leaf 97)) (Some (leaf 98)) None))
       (Some (HuffmanNode None (Some (leaf 101))
           (Some (HuffmanNode None (Some (leaf 99)) (Some (leaf 100)) None)) None))
       None) \<and>
   \<not> node_eq (HuffmanNode None
       (Some (HuffmanNode None (Some (leaf 97)) (Some (leaf 98)) None))
       (Some (HuffmanNode None (Some (leaf 101))
           (Some (HuffmanNode None (Some (leaf 99)) (Some (leaf 100)) None)) None))
       None)
     (HuffmanNode None
       (Some (HuffmanNode None (Some (leaf 99)) (Some (leaf 100)) (Some 0)))
       (Some (HuffmanNode None (Some (leaf 101))
           (Some (HuffmanNode None (Some (leaf 97)) (Some (leaf 98)) (Some 1))) (Some 2)))
       (Some 3)) \<and>
   generate_tree_general 1000 [\<lparr>l_type = 0, l_data = 99, r_type = 0, r_data = 100\<rparr>,
      \<lparr>l_type = 0, l_data = 97, r_type = 0, r_data = 98\<rparr>,
      \<lparr>l_type = 0, l_data = 101, r_type = 1, r_data = 1\<rparr>,
      \<lparr>l_type = 1, l_data = 0, r_type = 1, r_data = 2\<rparr>] 3 =
     Inr (HuffmanNode None
       (Some (HuffmanNode None (Some (leaf 99)) (Some (leaf 100)) None))
       (Some (HuffmanNode None (Some (leaf 101))
           (Some (HuffmanNode None (Some (leaf 97)) (Some (leaf 98)) None)) None))
       None) \<and>
   node_eq (HuffmanNode None
       (Some (HuffmanNode None (Some (leaf 99)) (Some (leaf 100)) None))
       (Some (HuffmanNode None (Some (leaf 101))
           (Some (HuffmanNode None (Some (leaf 97)) (Some (leaf 98)) None)) None))
       None)
     (HuffmanNode None
       (Some (HuffmanNode None (Some (leaf 99)) (Some (leaf 100)) (Some 0)))
       (Some (HuffmanNode None (Some (leaf 101))
           (Some (HuffmanNode None (Some (leaf 97)) (Some (leaf 98)) (Some 1))) (Some 2)))
       (Some 3)) \<and>
   number_nodes (HuffmanNode None (Some (leaf 97)) None None) = Inl AttributeError \<and>
   tree_to_bytes (HuffmanNode None (Some (leaf 97)) None None) = Inl AttributeError"
  by (intro conjI)
    (simp only: make_freq_dict_abcde huffman_tree_abcde number_nodes_abcde
      tree_to_bytes_abcde bytes_to_nodes_abcde generate_tree_postorder_abcde
      generate_tree_general_abcde node_eq_abcde [THEN conjunct1]
      node_eq_abcde [THEN conjunct2] number_nodes_single tree_to_bytes_single
      not_False_eq_True)+

subsection \<open>The weighted code length\<close>

lemma huffman_tree_textbook:
  "huffman_tree [(0, 5), (1, 9), (2, 12), (3, 13), (4, 16), (5, 45)] =
     Inr (HuffmanNode None (Some (leaf 5))
       (Some (HuffmanNode None
           (Some (HuffmanNode None (Some (leaf 2)) (Some (leaf 3)) None))
           (Some (HuffmanNode None
               (Some (HuffmanNode None (Some (leaf 0)) (Some (leaf 1)) None))
               (Some (leaf 4)) None))
           None))
       None)"
  by (simp add: huffman_tree_def huffman_while.simps take_min_def leaf_def)

lemma get_codes_textbook:
  "get_codes (Some (HuffmanNode None (Some (leaf 5))
       (Some (HuffmanNode None
           (Some (HuffmanNode None (Some (leaf 2)) (Some (leaf 3)) None))
           (Some (HuffmanNode None
               (Some (HuffmanNode None (Some (leaf 0)) (Some (leaf 1)) None))
               (Some (leaf 4)) None))
           None))
       None)) =
     Inr [(Some 5, ''0''), (Some 2, ''100''), (Some 3, ''101''), (Some 0, ''1100''),
      (Some 1, ''1101''), (Some 4, ''111'')]"
  by (simp add: get_codes.simps leaf_def is_leaf_def dict_update_def prefix_codes_def)

lemma avg_length_loop_textbook:
  "avg_length_loop
     (map fst [(Some 5, ''0''), (Some 2, ''100''), (Some 3, ''101''), (Some 0, ''1100''),
      (Some 1, ''1101''), (Some 4, ''111'')])
     [(Some 5, ''0''), (Some 2, ''100''), (Some 3, ''101''), (Some 0, ''1100''),
      (Some 1, ''1101''), (Some 4, ''111'')]
     [(0, 5), (1, 9), (2, 12), (3, 13), (4, 16), (5, 45)] 0 0 = Inr (100, 224)"
  by simp

text \<open>
  Claim C5 (for every non-empty frequency table the code table of the built tree has
  the least weighted length; the weights 5, 9, 12, 13, 16, 45 give 224) against the code.
  For the textbook weights the code table is built and the loop of \<^verbatim>\<open>avg_length\<close>
  sums 100 symbols and 224 bits. For a table with one symbol no code table is obtained:
  \<^verbatim>\<open>get_codes\<close> raises \<^verbatim>\<open>AttributeError\<close> on the tree that \<^verbatim>\<open>huffman_tree\<close> returns.
\<close>

theorem weighted_length_textbook_and_single:
  "huffman_tree [(0, 5), (1, 9), (2, 12), (3, 13), (4, 16), (5, 45)] =
     Inr (HuffmanNode None (Some (leaf 5))
       (Some (HuffmanNode None
           (Some (HuffmanNode None (Some (leaf 2)) (Some (leaf 3)) None))
           (Some (HuffmanNode None
               (Some (HuffmanNode None (Some (leaf 0)) (Some (leaf 1)) None))
               (Some (leaf 4)) None))
           None))
       None) \<and>
   get_codes (Some (HuffmanNode None (Some (leaf 5))
       (Some (HuffmanNode None
           (Some (HuffmanNode None (Some (leaf 2)) (Some (leaf 3)) None))
           (Some (HuffmanNode None
               (Some (HuffmanNode None (Some (leaf 0)) (Some (leaf 1)) None))
               (Some (leaf 4)) None))
           None))
       None)) =
     Inr [(Some 5, ''0''), (Some 2, ''100''), (Some 3, ''101''), (Some 0, ''1100''),
      (Some 1, ''1101''), (Some 4, ''111'')] \<and>
   avg_length_loop
     (map fst [(Some 5, ''0''), (Some 2, ''100''), (Some 3, ''101''), (Some 0, ''1100''),
      (Some 1, ''1101''), (Some 4, ''111'')])
     [(Some 5, ''0''), (Some 2, ''100''), (Some 3, ''101''), (Some 0, ''1100''),
      (Some 1, ''1101''), (Some 4, ''111'')]
     [(0, 5), (1, 9), (2, 12), (3, 13), (4, 16), (5, 45)] 0 0 = Inr (100, 224) \<and>
   huffman_tree [(65, 3)] = Inr (HuffmanNode None (Some (leaf 65)) None None) \<and>
   get_codes (Some (HuffmanNode None (Some (leaf 65)) None None)) = Inl AttributeError"
  by (intro conjI)
    (simp only: huffman_tree_textbook get_codes_textbook avg_length_loop_textbook
      huffman_tree_single get_codes_single)+

subsection \<open>The round trip\<close>

lemma count_repeated:
  "fold (\<lambda>byte freq.
          AList.update byte ((case map_of freq byte of None \<Rightarrow> 0 | Some c \<Rightarrow> c) + 1) freq)
     (replicate n b) [(b, c)] = [(b, c + n)]"
  by (induction n arbitrary: c) simp_all

lemma make_freq_dict_repeated: "make_freq_dict (replicate (Suc n) b) = [(b, Suc n)]"
  using count_repeated [of n b 1] by (simp add: make_freq_dict_def)

lemma compress_repeated: "compress (replicate (Suc n) b) = Inl AttributeError"
  by (simp only: compress_def make_freq_dict_repeated huffman_tree_single get_codes_single
      sum.case)

lemma freq_abcb: "make_freq_dict [65, 66, 67, 66] = [(65, 1), (66, 2), (67, 1)]"
  by (simp add: make_freq_dict_def)

lemma compress_abcb: "compress [65, 66, 67, 66] = Inr [2, 0, 65, 0, 67, 0, 66, 1, 0, 4, 0, 0, 0, 152]"
  unfolding compress_def freq_abcb
  by (simp add: huffman_tree_def huffman_while.simps take_min_def leaf_def
      get_codes.simps is_leaf_def dict_update_def prefix_codes_def number_nodes_def
      numbering.simps avg_length_def tree_to_bytes.simps num_nodes_to_bytes_def
      size_to_bytes_def generate_compressed_def bits_to_byte_def py_int_def)

lemma byte_to_bits_152: "byte_to_bits 152 = ''10011000''"
  by (simp add: byte_to_bits_eq bit_char_def bit_Suc_0_iff)

lemma tree_abcb:
  "generate_tree_general 1000
     [\<lparr>l_type = 0, l_data = 65, r_type = 0, r_data = 67\<rparr>,
      \<lparr>l_type = 0, l_data = 66, r_type = Suc 0, r_data = 0\<rparr>] 1 =
   Inr (HuffmanNode None (Some (leaf 66))
     (Some (HuffmanNode None (Some (leaf 65)) (Some (leaf 67)) None)) None)"
  by (simp add: generate_tree_general_pos py_index_def)

lemma unpack_abcb:
  "generate_uncompressed (HuffmanNode None (Some (leaf 66))
     (Some (HuffmanNode None (Some (leaf 65)) (Some (leaf 67)) None)) None) [152] 4 =
   Inr [65, 66, 67, 66]"
  by (simp add: generate_uncompressed_def get_codes.simps leaf_def is_leaf_def dict_update_def
      prefix_codes_def reverse_codes_def byte_to_bits_152 decode_symbols.simps scan_code.simps
      py_slice_def)

lemma bytes_to_size_4: "bytes_to_size [4, 0, 0, 0] = 4"
  by (simp add: bytes_to_size_def)

lemma uncompress_abcb:
  "uncompress 1000 [2, 0, 65, 0, 67, 0, 66, 1, 0, 4, 0, 0, 0, 152] = Inr [65, 66, 67, 66]"
  by (simp add: uncompress_def tree_abcb unpack_abcb bytes_to_size_4)

text \<open>
  Claim C1 (decompressing the compressed form of any buffer, also of a buffer of one
  repeated byte, gives the buffer back) against the code: for every non-empty buffer of
  one repeated byte \<^verbatim>\<open>compress\<close> raises \<^verbatim>\<open>AttributeError\<close> in \<^verbatim>\<open>get_codes\<close>, so there
  is no container to decompress. (The buffer \<open>[65, 66, 67, 66]\<close> of the spec's scenario is
  compressed and restored.)
\<close>

theorem compress_repeated_byte_fails:
  "compress (replicate (Suc n) b) = Inl AttributeError \<and>
   compress [65] = Inl AttributeError \<and>
   compress [65, 66, 67, 66] = Inr [2, 0, 65, 0, 67, 0, 66, 1, 0, 4, 0, 0, 0, 152] \<and>
   uncompress 1000 [2, 0, 65, 0, 67, 0, 66, 1, 0, 4, 0, 0, 0, 152] = Inr [65, 66, 67, 66]"
  using compress_repeated [of n b] compress_repeated [of 0 65] compress_abcb uncompress_abcb
  by simp

end
